theory Spec2Isabelle
  imports Complex_Main "HOL-Library.Word" "HOL-Library.AList"
begin

unbundle bit_operations_syntax

section \<open>Buffers\<close>

text \<open>A Node \<open>Buffer\<close> is a list of bytes.  JavaScript numbers that hold lengths, command
  codes and sequence numbers are natural numbers; the 32-bit patterns that the bitwise operators
  of JavaScript work on are \<open>32 word\<close>.\<close>

type_synonym byte = "8 word"
type_synonym buffer = "byte list"

datatype error =
    RangeError
  | NotConnected
  | CommandTimeout
  | InvalidKeyLength
  | WrongFinalBlockLength
  | BadDecrypt
  | SyntaxError
  | TypeError

text \<open>\<open>buf.writeUInt32BE(crc)\<close> on a fresh 4-byte buffer, for a value that is already an
  unsigned 32-bit pattern.\<close>

definition u32be :: "32 word \<Rightarrow> buffer" where
  "u32be w = [ucast (drop_bit 24 w), ucast (drop_bit 16 w), ucast (drop_bit 8 w), ucast w]"

text \<open>\<open>Buffer.alloc(4).writeUInt32BE(value)\<close> for a number: Node throws a range error
  when the value does not fit 32 bits.\<close>

definition writeUInt32BE :: "nat \<Rightarrow> error + buffer" where
  "writeUInt32BE v = (if v < 2 ^ 32 then Inr (u32be (of_nat v)) else Inl RangeError)"

text \<open>\<open>buf.readUInt32BE(off)\<close>: Node throws a range error unless four bytes are there.\<close>

definition readUInt32BE :: "buffer \<Rightarrow> nat \<Rightarrow> error + nat" where
  "readUInt32BE buf off =
     (if off + 4 \<le> length buf
      then Inr (unat (buf ! off) * 2 ^ 24 + unat (buf ! (off + 1)) * 2 ^ 16
                + unat (buf ! (off + 2)) * 2 ^ 8 + unat (buf ! (off + 3)))
      else Inl RangeError)"

text \<open>\<open>buf.slice(start, end)\<close> for non-negative arguments: both ends are clamped to the
  buffer, and an end before the start gives the empty buffer.\<close>

definition buffer_slice :: "buffer \<Rightarrow> nat \<Rightarrow> nat \<Rightarrow> buffer" where
  "buffer_slice buf start end = drop start (take end buf)"

text \<open>The magic markers \<open>Buffer.from('000055aa', 'hex')\<close> and
  \<open>Buffer.from('0000aa55', 'hex')\<close>.\<close>

definition magic_header :: buffer where
  "magic_header = [0x00, 0x00, 0x55, 0xaa]"

definition magic_footer :: buffer where
  "magic_footer = [0x00, 0x00, 0xaa, 0x55]"

section \<open>Checksum\<close>

text \<open>One turn of the inner loop of \<open>calculateCRC\<close>:
  \<open>if (crc & 1) crc = (crc >>> 1) ^ 0xEDB88320; else crc = crc >>> 1\<close>.\<close>

definition crc_shift :: "32 word \<Rightarrow> 32 word" where
  "crc_shift crc =
     (if crc AND 1 \<noteq> 0 then drop_bit 1 crc XOR 0xEDB88320 else drop_bit 1 crc)"

text \<open>\<open>for (let i = 0; i < 8; i++)\<close> around it.\<close>

fun crc_shifts :: "nat \<Rightarrow> 32 word \<Rightarrow> 32 word" where
  "crc_shifts 0 crc = crc"
| "crc_shifts (Suc n) crc = crc_shifts n (crc_shift crc)"

text \<open>\<open>calculateCRC\<close> of the control connection: the bitwise loop over the bytes, the
  final complement, and the big-endian buffer.\<close>

definition crc_byte :: "byte \<Rightarrow> 32 word \<Rightarrow> 32 word" where
  "crc_byte b crc = crc_shifts 8 (crc XOR ucast b)"

definition calculateCRC :: "buffer \<Rightarrow> buffer" where
  "calculateCRC data = u32be (NOT (fold crc_byte data 0xFFFFFFFF))"

text \<open>\<open>getCRCTable\<close> of the stream connection: 256 entries, each eight turns of the same
  shift on the index.\<close>

definition getCRCTable :: "32 word list" where
  "getCRCTable = map (\<lambda>i. crc_shifts 8 (of_nat i)) [0..<256]"

text \<open>\<open>calculateCRC32\<close> of the stream connection:
  \<open>crc = (crc >>> 8) ^ table[(crc ^ byte) & 0xFF]\<close>.\<close>

definition crc32_byte :: "byte \<Rightarrow> 32 word \<Rightarrow> 32 word" where
  "crc32_byte b crc = drop_bit 8 crc XOR getCRCTable ! unat ((crc XOR ucast b) AND 0xFF)"

definition calculateCRC32 :: "buffer \<Rightarrow> buffer" where
  "calculateCRC32 data = u32be (NOT (fold crc32_byte data 0xFFFFFFFF))"

text \<open>\<open>Buffer.from(str)\<close>: a string is taken as the sequence of its UTF-8 bytes.\<close>

definition utf8 :: "string \<Rightarrow> buffer" where
  "utf8 s = map (\<lambda>c. of_nat (of_char c)) s"

section \<open>Cipher\<close>

text \<open>Modelled from the spec: the cipher is Node's \<open>crypto\<close> module, which is not part of
  the repository.  The spec names it: AES-128 in ECB mode with PKCS#7 padding applied on
  encryption and removed on decryption.  The block cipher below is AES-128 as FIPS-197 defines
  it, on a block of 16 bytes in the order of the input.\<close>

definition sbox_table :: "byte list" where
  "sbox_table = [
     0x63, 0x7c, 0x77, 0x7b, 0xf2, 0x6b, 0x6f, 0xc5, 0x30, 0x01, 0x67, 0x2b, 0xfe, 0xd7, 0xab, 0x76,
     0xca, 0x82, 0xc9, 0x7d, 0xfa, 0x59, 0x47, 0xf0, 0xad, 0xd4, 0xa2, 0xaf, 0x9c, 0xa4, 0x72, 0xc0,
     0xb7, 0xfd, 0x93, 0x26, 0x36, 0x3f, 0xf7, 0xcc, 0x34, 0xa5, 0xe5, 0xf1, 0x71, 0xd8, 0x31, 0x15,
     0x04, 0xc7, 0x23, 0xc3, 0x18, 0x96, 0x05, 0x9a, 0x07, 0x12, 0x80, 0xe2, 0xeb, 0x27, 0xb2, 0x75,
     0x09, 0x83, 0x2c, 0x1a, 0x1b, 0x6e, 0x5a, 0xa0, 0x52, 0x3b, 0xd6, 0xb3, 0x29, 0xe3, 0x2f, 0x84,
     0x53, 0xd1, 0x00, 0xed, 0x20, 0xfc, 0xb1, 0x5b, 0x6a, 0xcb, 0xbe, 0x39, 0x4a, 0x4c, 0x58, 0xcf,
     0xd0, 0xef, 0xaa, 0xfb, 0x43, 0x4d, 0x33, 0x85, 0x45, 0xf9, 0x02, 0x7f, 0x50, 0x3c, 0x9f, 0xa8,
     0x51, 0xa3, 0x40, 0x8f, 0x92, 0x9d, 0x38, 0xf5, 0xbc, 0xb6, 0xda, 0x21, 0x10, 0xff, 0xf3, 0xd2,
     0xcd, 0x0c, 0x13, 0xec, 0x5f, 0x97, 0x44, 0x17, 0xc4, 0xa7, 0x7e, 0x3d, 0x64, 0x5d, 0x19, 0x73,
     0x60, 0x81, 0x4f, 0xdc, 0x22, 0x2a, 0x90, 0x88, 0x46, 0xee, 0xb8, 0x14, 0xde, 0x5e, 0x0b, 0xdb,
     0xe0, 0x32, 0x3a, 0x0a, 0x49, 0x06, 0x24, 0x5c, 0xc2, 0xd3, 0xac, 0x62, 0x91, 0x95, 0xe4, 0x79,
     0xe7, 0xc8, 0x37, 0x6d, 0x8d, 0xd5, 0x4e, 0xa9, 0x6c, 0x56, 0xf4, 0xea, 0x65, 0x7a, 0xae, 0x08,
     0xba, 0x78, 0x25, 0x2e, 0x1c, 0xa6, 0xb4, 0xc6, 0xe8, 0xdd, 0x74, 0x1f, 0x4b, 0xbd, 0x8b, 0x8a,
     0x70, 0x3e, 0xb5, 0x66, 0x48, 0x03, 0xf6, 0x0e, 0x61, 0x35, 0x57, 0xb9, 0x86, 0xc1, 0x1d, 0x9e,
     0xe1, 0xf8, 0x98, 0x11, 0x69, 0xd9, 0x8e, 0x94, 0x9b, 0x1e, 0x87, 0xe9, 0xce, 0x55, 0x28, 0xdf,
     0x8c, 0xa1, 0x89, 0x0d, 0xbf, 0xe6, 0x42, 0x68, 0x41, 0x99, 0x2d, 0x0f, 0xb0, 0x54, 0xbb, 0x16]"

definition inv_sbox_table :: "byte list" where
  "inv_sbox_table = [
     0x52, 0x09, 0x6a, 0xd5, 0x30, 0x36, 0xa5, 0x38, 0xbf, 0x40, 0xa3, 0x9e, 0x81, 0xf3, 0xd7, 0xfb,
     0x7c, 0xe3, 0x39, 0x82, 0x9b, 0x2f, 0xff, 0x87, 0x34, 0x8e, 0x43, 0x44, 0xc4, 0xde, 0xe9, 0xcb,
     0x54, 0x7b, 0x94, 0x32, 0xa6, 0xc2, 0x23, 0x3d, 0xee, 0x4c, 0x95, 0x0b, 0x42, 0xfa, 0xc3, 0x4e,
     0x08, 0x2e, 0xa1, 0x66, 0x28, 0xd9, 0x24, 0xb2, 0x76, 0x5b, 0xa2, 0x49, 0x6d, 0x8b, 0xd1, 0x25,
     0x72, 0xf8, 0xf6, 0x64, 0x86, 0x68, 0x98, 0x16, 0xd4, 0xa4, 0x5c, 0xcc, 0x5d, 0x65, 0xb6, 0x92,
     0x6c, 0x70, 0x48, 0x50, 0xfd, 0xed, 0xb9, 0xda, 0x5e, 0x15, 0x46, 0x57, 0xa7, 0x8d, 0x9d, 0x84,
     0x90, 0xd8, 0xab, 0x00, 0x8c, 0xbc, 0xd3, 0x0a, 0xf7, 0xe4, 0x58, 0x05, 0xb8, 0xb3, 0x45, 0x06,
     0xd0, 0x2c, 0x1e, 0x8f, 0xca, 0x3f, 0x0f, 0x02, 0xc1, 0xaf, 0xbd, 0x03, 0x01, 0x13, 0x8a, 0x6b,
     0x3a, 0x91, 0x11, 0x41, 0x4f, 0x67, 0xdc, 0xea, 0x97, 0xf2, 0xcf, 0xce, 0xf0, 0xb4, 0xe6, 0x73,
     0x96, 0xac, 0x74, 0x22, 0xe7, 0xad, 0x35, 0x85, 0xe2, 0xf9, 0x37, 0xe8, 0x1c, 0x75, 0xdf, 0x6e,
     0x47, 0xf1, 0x1a, 0x71, 0x1d, 0x29, 0xc5, 0x89, 0x6f, 0xb7, 0x62, 0x0e, 0xaa, 0x18, 0xbe, 0x1b,
     0xfc, 0x56, 0x3e, 0x4b, 0xc6, 0xd2, 0x79, 0x20, 0x9a, 0xdb, 0xc0, 0xfe, 0x78, 0xcd, 0x5a, 0xf4,
     0x1f, 0xdd, 0xa8, 0x33, 0x88, 0x07, 0xc7, 0x31, 0xb1, 0x12, 0x10, 0x59, 0x27, 0x80, 0xec, 0x5f,
     0x60, 0x51, 0x7f, 0xa9, 0x19, 0xb5, 0x4a, 0x0d, 0x2d, 0xe5, 0x7a, 0x9f, 0x93, 0xc9, 0x9c, 0xef,
     0xa0, 0xe0, 0x3b, 0x4d, 0xae, 0x2a, 0xf5, 0xb0, 0xc8, 0xeb, 0xbb, 0x3c, 0x83, 0x53, 0x99, 0x61,
     0x17, 0x2b, 0x04, 0x7e, 0xba, 0x77, 0xd6, 0x26, 0xe1, 0x69, 0x14, 0x63, 0x55, 0x21, 0x0c, 0x7d]"

definition sub_byte :: "byte \<Rightarrow> byte" where
  "sub_byte b = sbox_table ! unat b"

definition inv_sub_byte :: "byte \<Rightarrow> byte" where
  "inv_sub_byte b = inv_sbox_table ! unat b"

definition sub_bytes :: "buffer \<Rightarrow> buffer" where
  "sub_bytes s = map sub_byte s"

definition inv_sub_bytes :: "buffer \<Rightarrow> buffer" where
  "inv_sub_bytes s = map inv_sub_byte s"

definition shift_rows :: "buffer \<Rightarrow> buffer" where
  "shift_rows s = map (\<lambda>i. s ! i) [0, 5, 10, 15, 4, 9, 14, 3, 8, 13, 2, 7, 12, 1, 6, 11]"

definition inv_shift_rows :: "buffer \<Rightarrow> buffer" where
  "inv_shift_rows s = map (\<lambda>i. s ! i) [0, 13, 10, 7, 4, 1, 14, 11, 8, 5, 2, 15, 12, 9, 6, 3]"

text \<open>Multiplication by \<open>x\<close> in the field of AES, and by the constants of the two column
  matrices.\<close>

definition xtime :: "byte \<Rightarrow> byte" where
  "xtime b = (if bit b 7 then push_bit 1 b XOR 0x1b else push_bit 1 b)"

definition mul3 :: "byte \<Rightarrow> byte" where
  "mul3 b = xtime b XOR b"

definition mul9 :: "byte \<Rightarrow> byte" where
  "mul9 b = xtime (xtime (xtime b)) XOR b"

definition mul11 :: "byte \<Rightarrow> byte" where
  "mul11 b = xtime (xtime (xtime b)) XOR xtime b XOR b"

definition mul13 :: "byte \<Rightarrow> byte" where
  "mul13 b = xtime (xtime (xtime b)) XOR xtime (xtime b) XOR b"

definition mul14 :: "byte \<Rightarrow> byte" where
  "mul14 b = xtime (xtime (xtime b)) XOR xtime (xtime b) XOR xtime b"

definition mix_column :: "byte \<Rightarrow> byte \<Rightarrow> byte \<Rightarrow> byte \<Rightarrow> buffer" where
  "mix_column a0 a1 a2 a3 =
     [xtime a0 XOR mul3 a1 XOR a2 XOR a3,
      a0 XOR xtime a1 XOR mul3 a2 XOR a3,
      a0 XOR a1 XOR xtime a2 XOR mul3 a3,
      mul3 a0 XOR a1 XOR a2 XOR xtime a3]"

definition inv_mix_column :: "byte \<Rightarrow> byte \<Rightarrow> byte \<Rightarrow> byte \<Rightarrow> buffer" where
  "inv_mix_column a0 a1 a2 a3 =
     [mul14 a0 XOR mul11 a1 XOR mul13 a2 XOR mul9 a3,
      mul9 a0 XOR mul14 a1 XOR mul11 a2 XOR mul13 a3,
      mul13 a0 XOR mul9 a1 XOR mul14 a2 XOR mul11 a3,
      mul11 a0 XOR mul13 a1 XOR mul9 a2 XOR mul14 a3]"

definition mix_columns :: "buffer \<Rightarrow> buffer" where
  "mix_columns s =
     concat (map (\<lambda>c. mix_column (s ! (4 * c)) (s ! (4 * c + 1)) (s ! (4 * c + 2)) (s ! (4 * c + 3)))
                 [0, 1, 2, 3])"

definition inv_mix_columns :: "buffer \<Rightarrow> buffer" where
  "inv_mix_columns s =
     concat (map (\<lambda>c. inv_mix_column (s ! (4 * c)) (s ! (4 * c + 1)) (s ! (4 * c + 2)) (s ! (4 * c + 3)))
                 [0, 1, 2, 3])"

definition add_round_key :: "buffer \<Rightarrow> buffer \<Rightarrow> buffer" where
  "add_round_key k s = map2 (XOR) s k"

text \<open>Key expansion, one round key of 16 bytes from the one before it and the round
  constant.\<close>

definition next_round_key :: "byte \<Rightarrow> buffer \<Rightarrow> buffer" where
  "next_round_key rcon k =
     (let w0 = map2 (XOR) (take 4 k)
                 [sub_byte (k ! 13) XOR rcon, sub_byte (k ! 14), sub_byte (k ! 15), sub_byte (k ! 12)];
          w1 = map2 (XOR) (take 4 (drop 4 k)) w0;
          w2 = map2 (XOR) (take 4 (drop 8 k)) w1;
          w3 = map2 (XOR) (take 4 (drop 12 k)) w2
      in w0 @ w1 @ w2 @ w3)"

fun expand_key :: "byte list \<Rightarrow> buffer \<Rightarrow> buffer list" where
  "expand_key [] k = [k]"
| "expand_key (rcon # rcons) k = k # expand_key rcons (next_round_key rcon k)"

definition round_keys :: "buffer \<Rightarrow> buffer list" where
  "round_keys key = expand_key [0x01, 0x02, 0x04, 0x08, 0x10, 0x20, 0x40, 0x80, 0x1b, 0x36] key"

text \<open>The rounds after the first key addition: every round but the last mixes the columns.\<close>

fun enc_rounds :: "buffer list \<Rightarrow> buffer \<Rightarrow> buffer" where
  "enc_rounds [] s = s"
| "enc_rounds [k] s = add_round_key k (shift_rows (sub_bytes s))"
| "enc_rounds (k # ks) s = enc_rounds ks (add_round_key k (mix_columns (shift_rows (sub_bytes s))))"

fun dec_rounds :: "buffer list \<Rightarrow> buffer \<Rightarrow> buffer" where
  "dec_rounds [] s = s"
| "dec_rounds [k] s = inv_sub_bytes (inv_shift_rows (add_round_key k s))"
| "dec_rounds (k # ks) s =
     inv_sub_bytes (inv_shift_rows (inv_mix_columns (add_round_key k (dec_rounds ks s))))"

definition aes_encrypt_block :: "buffer list \<Rightarrow> buffer \<Rightarrow> buffer" where
  "aes_encrypt_block rks s = enc_rounds (tl rks) (add_round_key (hd rks) s)"

definition aes_decrypt_block :: "buffer list \<Rightarrow> buffer \<Rightarrow> buffer" where
  "aes_decrypt_block rks s = add_round_key (hd rks) (dec_rounds (tl rks) s)"

text \<open>ECB: the blocks of 16 bytes one after the other, each under the same key.\<close>

fun blocks :: "nat \<Rightarrow> buffer \<Rightarrow> buffer list" where
  "blocks 0 s = []"
| "blocks (Suc n) s = take 16 s # blocks n (drop 16 s)"

definition ecb :: "(buffer \<Rightarrow> buffer) \<Rightarrow> buffer \<Rightarrow> buffer" where
  "ecb f s = concat (map f (blocks (length s div 16) s))"

text \<open>PKCS#7: between 1 and 16 bytes are appended, each holding their number.\<close>

definition pkcs7_pad :: "buffer \<Rightarrow> buffer" where
  "pkcs7_pad s = s @ replicate (16 - length s mod 16) (of_nat (16 - length s mod 16))"

definition pkcs7_unpad :: "buffer \<Rightarrow> error + buffer" where
  "pkcs7_unpad s =
     (let n = unat (last s)
      in if n = 0 \<or> 16 < n \<or> drop (length s - n) s \<noteq> replicate n (last s)
         then Inl BadDecrypt
         else Inr (take (length s - n) s))"

text \<open>\<open>createCipheriv('aes-128-ecb', key, iv)\<close> followed by \<open>update(data)\<close> and
  \<open>final()\<close>: a key that is not 16 bytes long is refused.\<close>

definition aes_128_ecb_encrypt :: "buffer \<Rightarrow> buffer \<Rightarrow> error + buffer" where
  "aes_128_ecb_encrypt key data =
     (if length key \<noteq> 16 then Inl InvalidKeyLength
      else Inr (ecb (aes_encrypt_block (round_keys key)) (pkcs7_pad data)))"

text \<open>\<open>createDecipheriv('aes-128-ecb', key, iv)\<close> followed by \<open>update(data)\<close> and
  \<open>final()\<close>: \<open>final\<close> throws unless the input is a positive number of whole blocks whose
  last block ends in a well-formed padding.\<close>

definition aes_128_ecb_decrypt :: "buffer \<Rightarrow> buffer \<Rightarrow> error + buffer" where
  "aes_128_ecb_decrypt key data =
     (if length key \<noteq> 16 then Inl InvalidKeyLength
      else if data = [] \<or> length data mod 16 \<noteq> 0 then Inl WrongFinalBlockLength
      else pkcs7_unpad (ecb (aes_decrypt_block (round_keys key)) data))"

section \<open>Digest\<close>

text \<open>Modelled from the spec: the digest is \<open>crypto.createHash('md5')\<close> of Node, which is
  not part of the repository.  The spec names it: MD5, a digest of 16 bytes.  The function below
  is MD5 as RFC 1321 defines it.\<close>

definition md5_K :: "32 word list" where
  "md5_K = [
     0xd76aa478, 0xe8c7b756, 0x242070db, 0xc1bdceee,
     0xf57c0faf, 0x4787c62a, 0xa8304613, 0xfd469501,
     0x698098d8, 0x8b44f7af, 0xffff5bb1, 0x895cd7be,
     0x6b901122, 0xfd987193, 0xa679438e, 0x49b40821,
     0xf61e2562, 0xc040b340, 0x265e5a51, 0xe9b6c7aa,
     0xd62f105d, 0x02441453, 0xd8a1e681, 0xe7d3fbc8,
     0x21e1cde6, 0xc33707d6, 0xf4d50d87, 0x455a14ed,
     0xa9e3e905, 0xfcefa3f8, 0x676f02d9, 0x8d2a4c8a,
     0xfffa3942, 0x8771f681, 0x6d9d6122, 0xfde5380c,
     0xa4beea44, 0x4bdecfa9, 0xf6bb4b60, 0xbebfbc70,
     0x289b7ec6, 0xeaa127fa, 0xd4ef3085, 0x04881d05,
     0xd9d4d039, 0xe6db99e5, 0x1fa27cf8, 0xc4ac5665,
     0xf4292244, 0x432aff97, 0xab9423a7, 0xfc93a039,
     0x655b59c3, 0x8f0ccc92, 0xffeff47d, 0x85845dd1,
     0x6fa87e4f, 0xfe2ce6e0, 0xa3014314, 0x4e0811a1,
     0xf7537e82, 0xbd3af235, 0x2ad7d2bb, 0xeb86d391]"

definition md5_s :: "nat list" where
  "md5_s = [7, 12, 17, 22, 7, 12, 17, 22, 7, 12, 17, 22, 7, 12, 17, 22,
            5, 9, 14, 20, 5, 9, 14, 20, 5, 9, 14, 20, 5, 9, 14, 20,
            4, 11, 16, 23, 4, 11, 16, 23, 4, 11, 16, 23, 4, 11, 16, 23,
            6, 10, 15, 21, 6, 10, 15, 21, 6, 10, 15, 21, 6, 10, 15, 21]"

definition u32le :: "32 word \<Rightarrow> buffer" where
  "u32le w = [ucast w, ucast (drop_bit 8 w), ucast (drop_bit 16 w), ucast (drop_bit 24 w)]"

definition le32 :: "buffer \<Rightarrow> 32 word" where
  "le32 bs = ucast (bs ! 0) OR push_bit 8 (ucast (bs ! 1)) OR push_bit 16 (ucast (bs ! 2))
             OR push_bit 24 (ucast (bs ! 3))"

definition md5_pad :: "buffer \<Rightarrow> buffer" where
  "md5_pad m =
     m @ [0x80] @ replicate ((119 - length m mod 64) mod 64) 0
       @ map (\<lambda>i. ucast (drop_bit (8 * i) (of_nat (8 * length m) :: 64 word))) [0..<8]"

definition md5_step ::
  "32 word list \<Rightarrow> nat \<Rightarrow> 32 word \<times> 32 word \<times> 32 word \<times> 32 word
     \<Rightarrow> 32 word \<times> 32 word \<times> 32 word \<times> 32 word" where
  "md5_step M i st =
     (case st of (a, b, c, d) \<Rightarrow>
        let f = (if i < 16 then (b AND c) OR (NOT b AND d)
                 else if i < 32 then (d AND b) OR (NOT d AND c)
                 else if i < 48 then b XOR c XOR d
                 else c XOR (b OR NOT d));
            g = (if i < 16 then i
                 else if i < 32 then (5 * i + 1) mod 16
                 else if i < 48 then (3 * i + 5) mod 16
                 else (7 * i) mod 16)
        in (d, b + word_rotl (md5_s ! i) (f + a + md5_K ! i + M ! g), b, c))"

definition md5_block ::
  "buffer \<Rightarrow> 32 word \<times> 32 word \<times> 32 word \<times> 32 word
     \<Rightarrow> 32 word \<times> 32 word \<times> 32 word \<times> 32 word" where
  "md5_block chunk st =
     (let M = map (\<lambda>j. le32 (take 4 (drop (4 * j) chunk))) [0..<16]
      in case (st, fold (md5_step M) [0..<64] st) of
           ((a0, b0, c0, d0), (a, b, c, d)) \<Rightarrow> (a0 + a, b0 + b, c0 + c, d0 + d))"

fun md5_blocks ::
  "nat \<Rightarrow> buffer \<Rightarrow> 32 word \<times> 32 word \<times> 32 word \<times> 32 word
     \<Rightarrow> 32 word \<times> 32 word \<times> 32 word \<times> 32 word" where
  "md5_blocks 0 m st = st"
| "md5_blocks (Suc n) m st = md5_blocks n (drop 64 m) (md5_block (take 64 m) st)"

definition md5 :: "buffer \<Rightarrow> buffer" where
  "md5 m =
     (case md5_blocks (length (md5_pad m) div 64) (md5_pad m)
             (0x67452301, 0xefcdab89, 0x98badcfe, 0x10325476) of
        (a, b, c, d) \<Rightarrow> u32le a @ u32le b @ u32le c @ u32le d)"

section \<open>JSON values\<close>

text \<open>The values \<open>JSON.parse\<close> returns and \<open>JSON.stringify\<close> takes.  The two functions
  themselves belong to the JavaScript runtime; the operations that call them take them as the
  parameters \<open>JSON_parse\<close> (\<open>None\<close> when it throws) and \<open>JSON_stringify\<close>.\<close>

datatype json =
    JNull
  | JBool bool
  | JNum real
  | JStr string
  | JArr "json list"
  | JObj "(string \<times> json) list"

text \<open>\<open>String(n)\<close> for a non-negative integer.\<close>

fun show_nat :: "nat \<Rightarrow> string" where
  "show_nat n =
     (if n < 10 then [char_of (48 + n)] else show_nat (n div 10) @ [char_of (48 + n mod 10)])"

text \<open>\<open>value.name\<close> for a name that no array or string has of its own: reading a property of
  \<open>null\<close> throws, a missing property is \<open>undefined\<close> (\<open>None\<close>).\<close>

fun get_member :: "json \<Rightarrow> string \<Rightarrow> error + json option" where
  "get_member JNull name = Inl TypeError"
| "get_member (JObj fields) name = Inr (map_of fields name)"
| "get_member v name = Inr None"

text \<open>\<open>value[i]\<close> for an index.\<close>

fun get_index :: "json \<Rightarrow> nat \<Rightarrow> error + json option" where
  "get_index JNull i = Inl TypeError"
| "get_index (JObj fields) i = Inr (map_of fields (show_nat i))"
| "get_index (JArr xs) i = Inr (if i < length xs then Some (xs ! i) else None)"
| "get_index (JStr s) i = Inr (if i < length s then Some (JStr [s ! i]) else None)"
| "get_index v i = Inr None"

text \<open>Truthiness of a value that may be \<open>undefined\<close>.\<close>

fun truthy :: "json option \<Rightarrow> bool" where
  "truthy None = False"
| "truthy (Some JNull) = False"
| "truthy (Some (JBool b)) = b"
| "truthy (Some (JNum x)) = (x \<noteq> 0)"
| "truthy (Some (JStr s)) = (s \<noteq> [])"
| "truthy (Some v) = True"

section \<open>Control connection\<close>

text \<open>The promise a call of \<open>sendCommand\<close> returns is settled at most once.\<close>

datatype outcome = Resolved json | Rejected error

text \<open>The two callbacks the class hands to \<open>setTimeout\<close>:
  \<open>() => reject(new Error('Command timeout'))\<close> for the promise of a call, and
  \<open>() => this.emit('motion', false)\<close>.\<close>

datatype action = RejectCall nat error | EmitMotion bool

datatype log_entry = FailedToDecrypt | FailedToParse | Received nat json

text \<open>The state of a \<open>TuyaDevice\<close> and of the runtime around it.
  \<^item> \<open>responders\<close>: the listeners registered by \<open>this.once(`response_${n}`, handler)\<close>, in the
    order of registration, as (n, call, timer): \<open>handler\<close> clears that timer and resolves the
    promise of that call.
  \<^item> \<open>timers\<close>: the pending timeouts in the order of their creation, as (timer, due time,
    callback); \<open>next_timer\<close> is the next fresh timer handle.
  \<^item> \<open>promises\<close>: the promises returned by \<open>sendCommand\<close>, indexed by call; \<open>None\<close> is
    pending.
  \<^item> \<open>motion_events\<close>: the \<open>'motion'\<close> events emitted so far, each with the time of its
    emission; \<open>now\<close> is the clock (\<open>Date.now()\<close>, in milliseconds).
  \<^item> \<open>written\<close>: the packets written to the socket.\<close>

record device =
  deviceId :: string
  localKey :: string
  connected :: bool
  socket :: bool
  sequence :: nat
  now :: nat
  responders :: "(nat \<times> nat \<times> nat) list"
  timers :: "(nat \<times> nat \<times> action) list"
  next_timer :: nat
  promises :: "outcome option list"
  motion_events :: "(nat \<times> bool) list"
  written :: "buffer list"
  debug_log :: "log_entry list"

definition version :: string where
  "version = ''3.3''"

definition DP_MOTION_DETECTED :: nat where
  "DP_MOTION_DETECTED = 115"

text \<open>\<open>resolve\<close> and \<open>reject\<close> of a promise: a settled promise stays as it is.\<close>

definition settle :: "nat \<Rightarrow> outcome \<Rightarrow> device \<Rightarrow> device" where
  "settle call result st =
     (if call < length (promises st) \<and> promises st ! call = None
      then st\<lparr>promises := (promises st)[call := Some result]\<rparr>
      else st)"

text \<open>\<open>new Promise\<close>, or the promise of an \<open>async\<close> function that throws at once.\<close>

definition new_promise :: "outcome option \<Rightarrow> device \<Rightarrow> nat \<times> device" where
  "new_promise result st = (length (promises st), st\<lparr>promises := promises st @ [result]\<rparr>)"

definition setTimeout :: "action \<Rightarrow> nat \<Rightarrow> device \<Rightarrow> nat \<times> device" where
  "setTimeout callback delay st =
     (next_timer st,
      st\<lparr>timers := timers st @ [(next_timer st, now st + delay, callback)],
         next_timer := next_timer st + 1\<rparr>)"

definition clearTimeout :: "nat \<Rightarrow> device \<Rightarrow> device" where
  "clearTimeout timer st = st\<lparr>timers := filter (\<lambda>(i, due, callback). i \<noteq> timer) (timers st)\<rparr>"

definition debug :: "log_entry \<Rightarrow> device \<Rightarrow> device" where
  "debug entry st = st\<lparr>debug_log := debug_log st @ [entry]\<rparr>"

definition emit_motion :: "bool \<Rightarrow> device \<Rightarrow> device" where
  "emit_motion detected st = st\<lparr>motion_events := motion_events st @ [(now st, detected)]\<rparr>"

text \<open>\<open>buildPacket\<close> of the control connection.  The counter is incremented first, so it
  stays incremented when one of the writes throws.\<close>

definition buildPacket :: "nat \<Rightarrow> buffer \<Rightarrow> device \<Rightarrow> (error + buffer) \<times> device" where
  "buildPacket command payload st =
     (let st' = st\<lparr>sequence := sequence st + 1\<rparr>
      in case writeUInt32BE command of
           Inl e \<Rightarrow> (Inl e, st')
         | Inr cmd \<Rightarrow>
             (case writeUInt32BE (sequence st') of
                Inl e \<Rightarrow> (Inl e, st')
              | Inr seq \<Rightarrow>
                  (case writeUInt32BE (length payload + 8) of
                     Inl e \<Rightarrow> (Inl e, st')
                   | Inr len \<Rightarrow>
                       (let crcData = magic_header @ cmd @ seq @ len @ payload;
                            crc = calculateCRC crcData
                        in (Inr (crcData @ crc @ magic_footer), st')))))"

text \<open>The object \<open>sendCommand\<close> serialises: the identity fields and the time in seconds, then
  the fields of the caller's payload spread over them.\<close>

definition command_data :: "device \<Rightarrow> (string \<times> json) list \<Rightarrow> json" where
  "command_data st payload =
     JObj (fold (\<lambda>(name, v). AList.update name v) payload
             [(''gwId'', JStr (deviceId st)), (''devId'', JStr (deviceId st)),
              (''uid'', JStr (deviceId st)), (''t'', JStr (show_nat (now st div 1000)))])"

text \<open>The encryption in \<open>sendCommand\<close>: the protocol version is the constant \<open>'3.3'\<close>, and
  the key handed to the cipher is the local key string itself.\<close>

definition encryptCommand :: "device \<Rightarrow> buffer \<Rightarrow> error + buffer" where
  "encryptCommand st jsonBytes =
     (if version = ''3.3'' then aes_128_ecb_encrypt (utf8 (localKey st)) jsonBytes
      else Inr jsonBytes)"

text \<open>\<open>sendCommand\<close>.  The function is \<open>async\<close>: whatever it throws rejects the promise it
  returns.  Otherwise the promise is pending, a timeout of 5000 ms is armed that rejects it,
  and a one-time listener for \<open>response_${this.sequence}\<close> is registered that clears the
  timeout and resolves it; then the packet is written.\<close>

definition sendCommand ::
  "(json \<Rightarrow> string) \<Rightarrow> nat \<Rightarrow> (string \<times> json) list \<Rightarrow> device \<Rightarrow> nat \<times> device" where
  "sendCommand JSON_stringify command payload st =
     (if \<not> connected st \<or> \<not> socket st then new_promise (Some (Rejected NotConnected)) st
      else case encryptCommand st (utf8 (JSON_stringify (command_data st payload))) of
             Inl e \<Rightarrow> new_promise (Some (Rejected e)) st
           | Inr encrypted \<Rightarrow>
               (case buildPacket command encrypted st of
                  (Inl e, st1) \<Rightarrow> new_promise (Some (Rejected e)) st1
                | (Inr packet, st1) \<Rightarrow>
                    (case new_promise None st1 of
                       (call, st2) \<Rightarrow>
                         (case setTimeout (RejectCall call CommandTimeout) 5000 st2 of
                            (timeout, st3) \<Rightarrow>
                              (call,
                               st3\<lparr>responders := responders st3 @ [(sequence st3, call, timeout)],
                                   written := written st3 @ [packet]\<rparr>)))))"

text \<open>\<open>this.emit(`response_${sequence}`, payload)\<close>: every listener registered for that
  name is removed and called, in the order of registration.\<close>

definition emit_response :: "nat \<Rightarrow> json \<Rightarrow> device \<Rightarrow> device" where
  "emit_response sq payload st =
     fold (\<lambda>(n, call, timeout) s. settle call (Resolved payload) (clearTimeout timeout s))
          (filter (\<lambda>(n, call, timeout). n = sq) (responders st))
          (st\<lparr>responders := filter (\<lambda>(n, call, timeout). n \<noteq> sq) (responders st)\<rparr>)"

text \<open>\<open>handlePayload\<close>.  Reading \<open>payload.dps\<close> throws when the payload is \<open>null\<close>; the
  state reached by then is returned with the error.\<close>

definition handlePayload :: "nat \<Rightarrow> nat \<Rightarrow> json \<Rightarrow> device \<Rightarrow> device \<times> error option" where
  "handlePayload command sq payload st =
     (let st1 = emit_response sq payload (debug (Received command payload) st)
      in if command = 8 then
           (case get_member payload ''dps'' of
              Inl e \<Rightarrow> (st1, Some e)
            | Inr dps \<Rightarrow>
                if truthy dps then
                  (case get_index (the dps) DP_MOTION_DETECTED of
                     Inl e \<Rightarrow> (st1, Some e)
                   | Inr None \<Rightarrow> (st1, None)
                   | Inr (Some v) \<Rightarrow>
                       (snd (setTimeout (EmitMotion False) 30000 (emit_motion True st1)), None))
                else (st1, None))
         else (st1, None))"

text \<open>The framing checks of \<open>handleData\<close>: the command is read at offset 8, the sequence at
  offset 12 and the length at offset 16; \<open>None\<close> is the early \<open>return\<close>.\<close>

definition readFrame :: "buffer \<Rightarrow> error + (nat \<times> nat \<times> buffer) option" where
  "readFrame data =
     (if length data < 20 \<or> take 4 data \<noteq> magic_header then Inr None
      else case readUInt32BE data 8 of
             Inl e \<Rightarrow> Inl e
           | Inr command \<Rightarrow>
               (case readUInt32BE data 12 of
                  Inl e \<Rightarrow> Inl e
                | Inr sq \<Rightarrow>
                    (case readUInt32BE data 16 of
                       Inl e \<Rightarrow> Inl e
                     | Inr len \<Rightarrow>
                         if length data < 20 + len then Inr None
                         else Inr (Some (command, sq, buffer_slice data 20 (20 + len - 8))))))"

text \<open>The decryption in \<open>handleData\<close>: an empty payload is passed through.\<close>

definition decryptFrame :: "device \<Rightarrow> buffer \<Rightarrow> error + buffer" where
  "decryptFrame st encrypted =
     (if version = ''3.3'' \<and> encrypted \<noteq> [] then aes_128_ecb_decrypt (utf8 (localKey st)) encrypted
      else Inr encrypted)"

text \<open>\<open>buf.toString()\<close>, the string being taken as the sequence of its UTF-8 bytes.\<close>

definition buffer_toString :: "buffer \<Rightarrow> string" where
  "buffer_toString buf = map (\<lambda>b. char_of (unat b)) buf"

text \<open>The rest of \<open>handleData\<close>: decrypt, strip the NUL bytes, parse, dispatch.  Both
  \<open>try\<close> blocks catch everything and log.\<close>

definition handleFrame ::
  "(string \<Rightarrow> json option) \<Rightarrow> nat \<Rightarrow> nat \<Rightarrow> buffer \<Rightarrow> device \<Rightarrow> device" where
  "handleFrame JSON_parse command sq encrypted st =
     (case decryptFrame st encrypted of
        Inl e \<Rightarrow> debug FailedToDecrypt st
      | Inr decrypted \<Rightarrow>
          (let jsonStr = filter (\<lambda>c. c \<noteq> CHR 0x00) (buffer_toString decrypted)
           in if jsonStr \<noteq> [] then
                (case JSON_parse jsonStr of
                   None \<Rightarrow> debug FailedToParse st
                 | Some payload \<Rightarrow>
                     (case handlePayload command sq payload st of
                        (st', None) \<Rightarrow> st'
                      | (st', Some e) \<Rightarrow> debug FailedToParse st'))
              else st))"

definition handleData :: "(string \<Rightarrow> json option) \<Rightarrow> buffer \<Rightarrow> device \<Rightarrow> error + device" where
  "handleData JSON_parse data st =
     (case readFrame data of
        Inl e \<Rightarrow> Inl e
      | Inr None \<Rightarrow> Inr st
      | Inr (Some (command, sq, encrypted)) \<Rightarrow> Inr (handleFrame JSON_parse command sq encrypted st))"

text \<open>The passing of time.  A timeout that is due runs its callback at its due time and is
  gone; timeouts due at the same time run in the order of their creation.\<close>

fun run_callback :: "action \<Rightarrow> device \<Rightarrow> device" where
  "run_callback (RejectCall call e) st = settle call (Rejected e) st"
| "run_callback (EmitMotion detected) st = emit_motion detected st"

definition fire :: "nat \<times> nat \<times> action \<Rightarrow> device \<Rightarrow> device" where
  "fire t st =
     (case t of (timer, due, callback) \<Rightarrow>
        run_callback callback ((clearTimeout timer st)\<lparr>now := max (now st) due\<rparr>))"

definition advance :: "nat \<Rightarrow> device \<Rightarrow> device" where
  "advance t st =
     (let st' = fold fire (sort_key (\<lambda>(timer, due, callback). due)
                            (filter (\<lambda>(timer, due, callback). due \<le> t) (timers st))) st
      in st'\<lparr>now := max (now st') t\<rparr>)"

section \<open>Stream connection\<close>

text \<open>The state of a \<open>TuyaStreamDecoder\<close>: \<open>videoData\<close> holds the payloads of the
  \<open>'videoData'\<close> events emitted so far, \<open>stream_written\<close> the packets written to the
  socket.\<close>

record decoder =
  stream_deviceId :: string
  stream_localKey :: string
  sessionKey :: "buffer option"
  frameBuffer :: buffer
  videoData :: "buffer list"
  stream_written :: "buffer list"


definition CMD_STREAM_DATA :: nat where
  "CMD_STREAM_DATA = 0xD1"

definition CMD_STREAM_STOP :: nat where
  "CMD_STREAM_STOP = 0xD2"

text \<open>\<open>this.sessionKey || Buffer.from(this.localKey, 'utf8')\<close>.\<close>

definition cipher_key :: "decoder \<Rightarrow> buffer" where
  "cipher_key st = (case sessionKey st of Some k \<Rightarrow> k | None \<Rightarrow> utf8 (stream_localKey st))"

definition encryptPayload :: "decoder \<Rightarrow> string \<Rightarrow> error + buffer" where
  "encryptPayload st data = aes_128_ecb_encrypt (cipher_key st) (utf8 data)"

text \<open>\<open>decryptPayload\<close>: when the cipher throws, the data is returned as it came.\<close>

definition decryptPayload :: "decoder \<Rightarrow> buffer \<Rightarrow> buffer" where
  "decryptPayload st data =
     (case aes_128_ecb_decrypt (cipher_key st) data of
        Inr plain \<Rightarrow> plain
      | Inl e \<Rightarrow> data)"




text \<open>\<open>buf.indexOf(value, byteOffset)\<close> for a non-empty value: the first position from
  \<open>byteOffset\<close> on where the value occurs, or -1.\<close>

definition indexOf :: "buffer \<Rightarrow> buffer \<Rightarrow> nat \<Rightarrow> int" where
  "indexOf buf v byteOffset =
     (case find (\<lambda>i. take (length v) (drop i buf) = v) [byteOffset..<length buf] of
        None \<Rightarrow> - 1
      | Some i \<Rightarrow> int i)"

text \<open>The resynchronisation at the head of the loop of \<open>handleStreamData\<close>; \<open>None\<close> is the
  branch that empties the buffer and leaves the loop.\<close>

definition resync :: "buffer \<Rightarrow> buffer option" where
  "resync fb =
     (if take 4 fb \<noteq> magic_header then
        (let headerIndex = indexOf fb magic_header 1
         in if headerIndex > 0 then Some (drop (nat headerIndex) fb) else None)
      else Some fb)"

text \<open>What the loop does with an extracted packet.\<close>

definition process_packet :: "nat \<Rightarrow> nat \<Rightarrow> buffer \<Rightarrow> decoder \<Rightarrow> decoder" where
  "process_packet command payloadLen packet st =
     (if command = CMD_STREAM_DATA
      then st\<lparr>videoData := videoData st @ [decryptPayload st (buffer_slice packet 20 (20 + payloadLen - 8))]\<rparr>
      else st)"

text \<open>The loop \<open>while (this.frameBuffer.length >= 20)\<close> of \<open>handleStreamData\<close>.  After the
  resynchronisation the header fields are read without a second look at the length.\<close>

function scan :: "decoder \<Rightarrow> error + decoder" where
  "scan st =
     (if 20 \<le> length (frameBuffer st) then
        (case resync (frameBuffer st) of
           None \<Rightarrow> Inr (st\<lparr>frameBuffer := []\<rparr>)
         | Some fb \<Rightarrow>
             (case readUInt32BE fb 8 of
                Inl e \<Rightarrow> Inl e
              | Inr command \<Rightarrow>
                  (case readUInt32BE fb 16 of
                     Inl e \<Rightarrow> Inl e
                   | Inr payloadLen \<Rightarrow>
                       if length fb < 20 + payloadLen then Inr (st\<lparr>frameBuffer := fb\<rparr>)
                       else scan (process_packet command payloadLen (buffer_slice fb 0 (20 + payloadLen))
                                    (st\<lparr>frameBuffer := drop (20 + payloadLen) fb\<rparr>)))))
      else Inr st)"
  by pat_completeness auto
termination
proof (relation "measure (\<lambda>st. length (frameBuffer st))")
  show "wf (measure (\<lambda>st. length (frameBuffer st)))"
    by simp
next
  fix st :: decoder and fb command payloadLen
  assume "resync (frameBuffer st) = Some fb" and "\<not> length fb < 20 + payloadLen"
  moreover from this have "length fb \<le> length (frameBuffer st)"
    by (auto simp: resync_def Let_def split: if_splits)
  ultimately show
    "(process_packet command payloadLen (buffer_slice fb 0 (20 + payloadLen))
        (st\<lparr>frameBuffer := drop (20 + payloadLen) fb\<rparr>), st)
     \<in> measure (\<lambda>st. length (frameBuffer st))"
    by (simp add: process_packet_def)
qed

text \<open>\<open>handleStreamData\<close>: append the chunk, then run the loop.\<close>

definition handleStreamData :: "buffer \<Rightarrow> decoder \<Rightarrow> error + decoder" where
  "handleStreamData data st = scan (st\<lparr>frameBuffer := frameBuffer st @ data\<rparr>)"


section \<open>Construction\<close>

text \<open>The state after \<open>new TuyaDevice(deviceId, localKey, ip, log)\<close> at clock value \<open>t\<close>,
  and what the \<open>'connect'\<close> handler of \<open>connect\<close> does to it.  The heartbeat that the
  handler starts is a call \<open>sendCommand(0x09, {})\<close> every 10000 ms; it is not part of the
  state.\<close>

definition TuyaDevice :: "string \<Rightarrow> string \<Rightarrow> nat \<Rightarrow> device" where
  "TuyaDevice device_id local_key t =
     \<lparr>deviceId = device_id, localKey = local_key, connected = False, socket = False,
      sequence = 0, now = t, responders = [], timers = [], next_timer = 0, promises = [],
      motion_events = [], written = [], debug_log = []\<rparr>"

definition on_connect :: "device \<Rightarrow> device" where
  "on_connect st = st\<lparr>connected := True, socket := True\<rparr>"

text \<open>The state after \<open>new TuyaStreamDecoder(deviceId, localKey, ip, log)\<close>.\<close>

definition TuyaStreamDecoder :: "string \<Rightarrow> string \<Rightarrow> decoder" where
  "TuyaStreamDecoder device_id local_key =
     \<lparr>stream_deviceId = device_id, stream_localKey = local_key, sessionKey = None,
      frameBuffer = [], videoData = [], stream_written = []\<rparr>"

section \<open>Runs of the control connection\<close>

text \<open>What can happen to a device: a chunk of bytes arrives on the socket, a caller (or the
  heartbeat) sends a command, or the clock moves on to a given time.\<close>

datatype input = Chunk buffer | Command nat "(string \<times> json) list" | Elapse nat

fun step :: "(string \<Rightarrow> json option) \<Rightarrow> (json \<Rightarrow> string) \<Rightarrow> input \<Rightarrow> device \<Rightarrow> device" where
  "step JSON_parse JSON_stringify (Chunk data) st =
     (case handleData JSON_parse data st of Inr st' \<Rightarrow> st' | Inl e \<Rightarrow> st)"
| "step JSON_parse JSON_stringify (Command command payload) st =
     snd (sendCommand JSON_stringify command payload st)"
| "step JSON_parse JSON_stringify (Elapse t) st = advance t st"

definition run ::
  "(string \<Rightarrow> json option) \<Rightarrow> (json \<Rightarrow> string) \<Rightarrow> input list \<Rightarrow> device \<Rightarrow> device" where
  "run JSON_parse JSON_stringify inputs st = fold (step JSON_parse JSON_stringify) inputs st"

text \<open>What holds of the timers in every state the runtime can be in: the handles in use
  are below the next fresh one and differ from each other, and no pending timeout is overdue.\<close>

definition timers_wf :: "device \<Rightarrow> bool" where
  "timers_wf st \<longleftrightarrow>
     (\<forall>(n, call, timeout) \<in> set (responders st). timeout < next_timer st)
     \<and> (\<forall>(timer, due, callback) \<in> set (timers st). timer < next_timer st \<and> now st \<le> due)
     \<and> distinct (map fst (timers st))"

text \<open>And of the promises: every listener and every timeout refers to a promise that
  exists.\<close>

definition registrations_wf :: "device \<Rightarrow> bool" where
  "registrations_wf st \<longleftrightarrow>
     (\<forall>(n, call, timeout) \<in> set (responders st). call < length (promises st))
     \<and> (\<forall>(timer, due, callback) \<in> set (timers st).
           \<forall>call e. callback = RejectCall call e \<longrightarrow> call < length (promises st))"

text \<open>The automatic clear of a motion event is either still scheduled, under a handle that no
  listener holds, or it has been emitted at its due time.\<close>

definition clear_scheduled :: "nat \<Rightarrow> nat \<Rightarrow> device \<Rightarrow> bool" where
  "clear_scheduled timer due st \<longleftrightarrow>
     (due, False) \<in> set (motion_events st)
     \<or> ((timer, due, EmitMotion False) \<in> set (timers st)
         \<and> (\<forall>(n, call, timeout) \<in> set (responders st). timeout \<noteq> timer))"

text \<open>A payload that contains the motion-detected data point, as \<open>handlePayload\<close> tests it:
  \<open>payload.dps\<close> is truthy and \<open>payload.dps[115]\<close> is not \<open>undefined\<close>.\<close>

definition has_motion_dp :: "json \<Rightarrow> bool" where
  "has_motion_dp payload =
     (case get_member payload ''dps'' of
        Inl e \<Rightarrow> False
      | Inr dps \<Rightarrow>
          truthy dps \<and>
          (case get_index (the dps) DP_MOTION_DETECTED of
             Inl e \<Rightarrow> False
           | Inr None \<Rightarrow> False
           | Inr (Some v) \<Rightarrow> True))"

section \<open>Example states\<close>

text \<open>A connected device and a fresh stream decoder with a local key of 16 bytes, for the
  concrete instances below.\<close>

definition example_device :: device where
  "example_device = on_connect (TuyaDevice ''cam'' ''0123456789abcdef'' 0)"

definition example_decoder :: decoder where
  "example_decoder = TuyaStreamDecoder ''cam'' ''0123456789abcdef''"

section \<open>Properties of the checksum\<close>

lemma crc_shift_alt:
  "crc_shift x = drop_bit 1 x XOR (if odd x then 0xEDB88320 else 0)"
  by (simp add: crc_shift_def and_one_eq mod2_eq_if)

lemma crc_shift_xor: "crc_shift (a XOR b) = crc_shift a XOR crc_shift b"
  unfolding crc_shift_alt
  by (cases "odd a"; cases "odd b") (simp_all add: even_xor_iff ac_simps)

lemma crc_shifts_xor: "crc_shifts n (a XOR b) = crc_shifts n a XOR crc_shifts n b"
  by (induction n arbitrary: a b) (simp_all add: crc_shift_xor)

text \<open>While the low \<open>n\<close> bits are clear the polynomial is never folded in, and \<open>n\<close>
  turns are a plain shift.\<close>

lemma crc_shifts_high: "take_bit n x = 0 \<Longrightarrow> crc_shifts n x = drop_bit n x"
proof (induction n arbitrary: x)
  case 0
  then show ?case by simp
next
  case (Suc n)
  from Suc.prems have b0: "\<not> bit x 0"
    by (metis bit_of_bool_iff bit_take_bit_iff of_bool_eq_0_iff zero_less_Suc)
  from Suc.prems have t: "take_bit n (drop_bit 1 x) = 0"
    by (metis One_nat_def diff_Suc_1' drop_bit_of_0 drop_bit_take_bit)
  have "crc_shift x = drop_bit 1 x"
    using b0 by (simp add: crc_shift_alt bit_0)
  then show ?case using Suc.IH [OF t] by (simp add: drop_bit_drop_bit)
qed

lemma word32_split8: "(v :: 32 word) = take_bit 8 v XOR push_bit 8 (drop_bit 8 v)"
  by (simp add: bit_eq_iff bit_simps) auto

lemma word32_and_ff: "(v :: 32 word) AND 0xFF = take_bit 8 v"
  by (simp add: take_bit_eq_mask mask_eq_exp_minus_1)

lemma unat_and_ff_less: "unat ((v :: 32 word) AND 0xFF) < 256"
  using take_bit_nat_less_exp [of 8 "unat v"]
  by (simp add: word32_and_ff unsigned_take_bit_eq)

lemma drop_bit_8_ucast_byte: "drop_bit 8 (ucast (b :: byte) :: 32 word) = 0"
  by (auto simp: bit_eq_iff bit_simps dest: bit_imp_le_length)

lemma drop_push_drop_8: "drop_bit 8 (push_bit 8 (drop_bit 8 v)) = drop_bit 8 (v :: 32 word)"
  by (auto simp: bit_eq_iff bit_simps dest: bit_imp_le_length)

lemma getCRCTable_nth: "i < 256 \<Longrightarrow> getCRCTable ! i = crc_shifts 8 (of_nat i)"
  unfolding getCRCTable_def by (simp del: crc_shifts.simps)

text \<open>One table lookup does what eight turns of the bitwise loop do.\<close>

lemma crc32_byte_eq: "crc32_byte b crc = crc_byte b crc"
proof -
  define v where "v = crc XOR ucast b"
  have ix: "of_nat (unat (v AND 0xFF)) = take_bit 8 v"
    by (simp add: word32_and_ff)
  have hi: "drop_bit 8 v = drop_bit 8 crc"
    unfolding v_def by (simp add: drop_bit_8_ucast_byte)
  have "crc_shifts 8 v = crc_shifts 8 (take_bit 8 v) XOR crc_shifts 8 (push_bit 8 (drop_bit 8 v))"
    by (subst word32_split8 [of v], subst crc_shifts_xor) simp
  also have "crc_shifts 8 (push_bit 8 (drop_bit 8 v)) = drop_bit 8 (push_bit 8 (drop_bit 8 v))"
    by (rule crc_shifts_high) (simp add: take_bit_push_bit)
  also have "\<dots> = drop_bit 8 v"
    by (rule drop_push_drop_8)
  finally show ?thesis
    unfolding crc32_byte_def crc_byte_def
    using getCRCTable_nth [OF unat_and_ff_less [of v]] ix hi
    by (simp add: v_def [symmetric] xor.commute del: crc_shifts.simps)
qed

lemma calculateCRC32_eq: "calculateCRC32 data = calculateCRC data"
proof -
  have "crc32_byte = crc_byte"
    by (intro ext) (rule crc32_byte_eq)
  then show ?thesis
    by (simp add: calculateCRC32_def calculateCRC_def)
qed

lemma calculateCRC_empty: "calculateCRC [] = [0x00, 0x00, 0x00, 0x00]"
  by (simp add: calculateCRC_def u32be_def)

lemma calculateCRC_check: "calculateCRC (utf8 ''123456789'') = [0xCB, 0xF4, 0x39, 0x26]"
  by code_simp

text \<open>Claim C6.  The bitwise checksum of the control connection and the table-driven
  checksum of the stream connection are the same function of the input bytes, and that function
  is CRC-32/ISO-HDLC (reflected polynomial \<open>0xEDB88320\<close>, initial value and final
  complement \<open>0xFFFFFFFF\<close>): the empty input gives \<open>00000000\<close> and the ASCII string
  \<open>123456789\<close> gives \<open>CBF43926\<close>.\<close>

theorem checksum_engines_agree:
  "calculateCRC32 data = calculateCRC data
   \<and> calculateCRC data = u32be (NOT (fold (\<lambda>b crc. crc_shifts 8 (crc XOR ucast b)) data 0xFFFFFFFF))
   \<and> calculateCRC [] = [0x00, 0x00, 0x00, 0x00]
   \<and> calculateCRC32 [] = [0x00, 0x00, 0x00, 0x00]
   \<and> calculateCRC (utf8 ''123456789'') = [0xCB, 0xF4, 0x39, 0x26]
   \<and> calculateCRC32 (utf8 ''123456789'') = [0xCB, 0xF4, 0x39, 0x26]"
proof -
  have "crc_byte = (\<lambda>b crc. crc_shifts 8 (crc XOR ucast b))"
    by (intro ext) (simp add: crc_byte_def del: crc_shifts.simps)
  then have "calculateCRC data
      = u32be (NOT (fold (\<lambda>b crc. crc_shifts 8 (crc XOR ucast b)) data 0xFFFFFFFF))"
    by (simp add: calculateCRC_def)
  then show ?thesis
    by (simp only: calculateCRC32_eq calculateCRC_empty calculateCRC_check simp_thms)
qed

section \<open>Properties of the cipher\<close>

lemma sbox_inverse_table:
  "list_all (\<lambda>n. inv_sbox_table ! unat (sbox_table ! n) = of_nat n) [0..<256]"
  by code_simp

lemma inv_sub_byte_sub_byte: "inv_sub_byte (sub_byte b) = b"
proof -
  have "unat b < 256"
    using unsigned_less [of b] by simp
  then have "unat b \<in> set [0..<256]" by simp
  with sbox_inverse_table have "inv_sbox_table ! unat (sbox_table ! unat b) = of_nat (unat b)"
    unfolding list_all_iff by blast
  then show ?thesis by (simp add: inv_sub_byte_def sub_byte_def)
qed

lemma inv_sub_bytes_sub_bytes: "inv_sub_bytes (sub_bytes s) = s"
  by (simp add: inv_sub_bytes_def sub_bytes_def o_def inv_sub_byte_sub_byte)

lemma length_16_D:
  "length s = 16 \<Longrightarrow> \<exists>a0 a1 a2 a3 a4 a5 a6 a7 a8 a9 a10 a11 a12 a13 a14 a15.
     s = [a0, a1, a2, a3, a4, a5, a6, a7, a8, a9, a10, a11, a12, a13, a14, a15]"
  by (simp add: numeral_eq_Suc length_Suc_conv) blast

lemma inv_shift_rows_shift_rows: "length s = 16 \<Longrightarrow> inv_shift_rows (shift_rows s) = s"
  by (drule length_16_D) (auto simp: inv_shift_rows_def shift_rows_def)

lemma xtime_xor: "xtime (a XOR b) = xtime a XOR xtime b"
  unfolding xtime_def
  by (cases "bit a 7"; cases "bit b 7") (simp_all add: bit_xor_iff ac_simps push_bit_xor)

lemma xor_cancel: "(a :: byte) XOR (a XOR b) = b"
  by (simp add: xor.assoc [symmetric])

lemma inv_mix_column_mix_column:
  "inv_mix_column (xtime a0 XOR mul3 a1 XOR a2 XOR a3) (a0 XOR xtime a1 XOR mul3 a2 XOR a3)
     (a0 XOR a1 XOR xtime a2 XOR mul3 a3) (mul3 a0 XOR a1 XOR a2 XOR xtime a3) = [a0, a1, a2, a3]"
  by (simp add: inv_mix_column_def mul3_def mul9_def mul11_def mul13_def mul14_def
      xtime_xor xor_cancel ac_simps)

lemma inv_mix_columns_mix_columns: "length s = 16 \<Longrightarrow> inv_mix_columns (mix_columns s) = s"
  by (drule length_16_D)
     (auto simp: inv_mix_columns_def mix_columns_def mix_column_def inv_mix_column_mix_column)

lemma add_round_key_twice:
  "length k = length s \<Longrightarrow> add_round_key k (add_round_key k s) = s"
  unfolding add_round_key_def
  by (induction s k rule: list_induct2') (simp_all add: xor.assoc)

lemma length_add_round_key: "length k = 16 \<Longrightarrow> length s = 16 \<Longrightarrow> length (add_round_key k s) = 16"
  by (simp add: add_round_key_def)

lemma length_sub_bytes: "length (sub_bytes s) = length s"
  by (simp add: sub_bytes_def)

lemma length_shift_rows: "length (shift_rows s) = 16"
  by (simp add: shift_rows_def)

lemma length_mix_columns: "length (mix_columns s) = 16"
  by (simp add: mix_columns_def mix_column_def)

lemma dec_rounds_enc_rounds:
  "length s = 16 \<Longrightarrow> \<forall>k \<in> set ks. length k = 16 \<Longrightarrow> dec_rounds ks (enc_rounds ks s) = s"
proof (induction ks s rule: enc_rounds.induct)
  case (1 s)
  then show ?case by simp
next
  case (2 k s)
  then show ?case
    by (simp add: add_round_key_twice length_shift_rows inv_shift_rows_shift_rows
        length_sub_bytes inv_sub_bytes_sub_bytes)
next
  case (3 k v va s)
  let ?t = "add_round_key k (mix_columns (shift_rows (sub_bytes s)))"
  have "length ?t = 16"
    using 3 by (simp add: length_add_round_key length_mix_columns)
  with 3 have "dec_rounds (v # va) (enc_rounds (v # va) ?t) = ?t"
    by simp
  with 3 show ?case
    by (simp add: add_round_key_twice length_mix_columns length_shift_rows
        inv_mix_columns_mix_columns inv_shift_rows_shift_rows length_sub_bytes
        inv_sub_bytes_sub_bytes)
qed

lemma length_enc_rounds:
  "length s = 16 \<Longrightarrow> \<forall>k \<in> set ks. length k = 16 \<Longrightarrow> length (enc_rounds ks s) = 16"
  by (induction ks s rule: enc_rounds.induct)
     (simp_all add: length_add_round_key length_mix_columns length_shift_rows)

lemma length_next_round_key: "length k = 16 \<Longrightarrow> length (next_round_key rcon k) = 16"
  by (simp add: next_round_key_def Let_def)

lemma length_expand_key:
  "length k = 16 \<Longrightarrow> \<forall>x \<in> set (expand_key rcons k). length x = 16"
proof (induction rcons arbitrary: k)
  case Nil
  then show ?case by simp
next
  case (Cons rcon rcons)
  have "length (next_round_key rcon k) = 16"
    using Cons.prems by (rule length_next_round_key)
  then have "\<forall>x \<in> set (expand_key rcons (next_round_key rcon k)). length x = 16"
    by (rule Cons.IH)
  with Cons.prems show ?case by simp
qed

lemma expand_key_not_Nil: "expand_key rcons k \<noteq> []"
  by (cases rcons) simp_all

lemma aes_block_roundtrip:
  assumes "length key = 16" and "length s = 16"
  shows "aes_decrypt_block (round_keys key) (aes_encrypt_block (round_keys key) s) = s"
    and "length (aes_encrypt_block (round_keys key) s) = 16"
proof -
  obtain k0 ks where rk: "round_keys key = k0 # ks"
    using expand_key_not_Nil [of _ key] by (cases "round_keys key") (auto simp: round_keys_def)
  have all: "\<forall>x \<in> set (k0 # ks). length x = 16"
    using length_expand_key [OF assms(1)] rk unfolding round_keys_def by metis
  then have k0: "length k0 = 16" and ks: "\<forall>x \<in> set ks. length x = 16"
    by simp_all
  have l: "length (add_round_key k0 s) = 16"
    using k0 assms(2) by (simp add: length_add_round_key)
  show "aes_decrypt_block (round_keys key) (aes_encrypt_block (round_keys key) s) = s"
    using dec_rounds_enc_rounds [OF l ks] k0 assms(2)
    by (simp add: aes_decrypt_block_def aes_encrypt_block_def rk add_round_key_twice)
  show "length (aes_encrypt_block (round_keys key) s) = 16"
    using length_enc_rounds [OF l ks] by (simp add: aes_encrypt_block_def rk)
qed

lemma ecb_roundtrip:
  assumes f: "\<And>b. length b = 16 \<Longrightarrow> g (f b) = b \<and> length (f b) = 16"
  shows "length s = 16 * n \<Longrightarrow> ecb g (ecb f s) = s \<and> length (ecb f s) = 16 * n"
proof (induction n arbitrary: s)
  case 0
  then show ?case by (simp add: ecb_def)
next
  case (Suc n)
  let ?h = "take 16 s" and ?t = "drop 16 s"
  have h: "length ?h = 16" and t: "length ?t = 16 * n"
    using Suc.prems by simp_all
  have e: "ecb f s = f ?h @ ecb f ?t"
    using Suc.prems t by (simp add: ecb_def)
  have lf: "length (f ?h) = 16" using f [OF h] by simp
  have le: "length (ecb f ?t) = 16 * n" using Suc.IH [OF t] by simp
  have "ecb g (f ?h @ ecb f ?t) = g (f ?h) @ ecb g (ecb f ?t)"
    using lf le by (simp add: ecb_def)
  then show ?case
    using f [OF h] Suc.IH [OF t] e lf le by simp
qed

lemma length_pkcs7_pad: "\<exists>n. length (pkcs7_pad s) = 16 * Suc n"
proof -
  have "length (pkcs7_pad s) = 16 * Suc (length s div 16)"
    by (simp add: pkcs7_pad_def) presburger
  then show ?thesis by blast
qed

lemma pkcs7_unpad_pad: "pkcs7_unpad (pkcs7_pad s) = Inr s"
proof -
  define n where "n = 16 - length s mod 16"
  have n: "0 < n" "n \<le> 16"
    unfolding n_def by simp_all
  have u: "unat (of_nat n :: byte) = n"
    using n by (simp add: unat_of_nat)
  have p: "pkcs7_pad s = s @ replicate n (of_nat n)"
    by (simp add: pkcs7_pad_def n_def)
  have l: "last (pkcs7_pad s) = of_nat n"
    using n by (simp add: p)
  show ?thesis
    using n by (simp add: pkcs7_unpad_def l u Let_def) (simp add: p)
qed

lemma aes_128_ecb_roundtrip:
  assumes "length key = 16"
  shows "\<exists>c. aes_128_ecb_encrypt key data = Inr c \<and> aes_128_ecb_decrypt key c = Inr data \<and> c \<noteq> []"
proof -
  obtain n where n: "length (pkcs7_pad data) = 16 * Suc n"
    using length_pkcs7_pad by blast
  let ?c = "ecb (aes_encrypt_block (round_keys key)) (pkcs7_pad data)"
  have r: "ecb (aes_decrypt_block (round_keys key)) ?c = pkcs7_pad data \<and> length ?c = 16 * Suc n"
    by (rule ecb_roundtrip [OF _ n]) (simp add: aes_block_roundtrip [OF assms])
  then have "?c \<noteq> []" "length ?c mod 16 = 0"
    by auto
  with r show ?thesis
    using assms by (simp add: aes_128_ecb_encrypt_def aes_128_ecb_decrypt_def pkcs7_unpad_pad)
qed

text \<open>A known answer: the example vector of FIPS-197, appendix C.1.\<close>

lemma aes_encrypt_block_fips197:
  "aes_encrypt_block (round_keys [0x00, 0x01, 0x02, 0x03, 0x04, 0x05, 0x06, 0x07,
                                  0x08, 0x09, 0x0a, 0x0b, 0x0c, 0x0d, 0x0e, 0x0f])
     [0x00, 0x11, 0x22, 0x33, 0x44, 0x55, 0x66, 0x77, 0x88, 0x99, 0xaa, 0xbb, 0xcc, 0xdd, 0xee, 0xff]
   = [0x69, 0xc4, 0xe0, 0xd8, 0x6a, 0x7b, 0x04, 0x30, 0xd8, 0xcd, 0xb7, 0x80, 0x70, 0xb4, 0xc5, 0x5a]"
  by code_simp

text \<open>Claim C7.  Under a key of 16 bytes, decrypting what was encrypted gives back the
  plaintext: for the cipher itself, for \<open>encryptPayload\<close> and \<open>decryptPayload\<close> of the stream
  connection, and for the encryption of \<open>sendCommand\<close> and the decryption of \<open>handleData\<close>
  on the control connection.\<close>

theorem cipher_roundtrip:
  assumes "length key = 16"
    and "cipher_key dec = key"
    and "utf8 (localKey dev) = key"
  shows "(\<exists>c. aes_128_ecb_encrypt key plaintext = Inr c \<and> aes_128_ecb_decrypt key c = Inr plaintext)
    \<and> (\<exists>c. encryptPayload dec text = Inr c \<and> decryptPayload dec c = utf8 text)
    \<and> (\<exists>c. encryptCommand dev plaintext = Inr c \<and> decryptFrame dev c = Inr plaintext)"
proof -
  obtain c where c: "aes_128_ecb_encrypt key (utf8 text) = Inr c"
    "aes_128_ecb_decrypt key c = Inr (utf8 text)"
    using aes_128_ecb_roundtrip [OF assms(1)] by blast
  obtain c' where c': "aes_128_ecb_encrypt key plaintext = Inr c'"
    "aes_128_ecb_decrypt key c' = Inr plaintext" "c' \<noteq> []"
    using aes_128_ecb_roundtrip [OF assms(1)] by blast
  have "\<exists>c. encryptPayload dec text = Inr c \<and> decryptPayload dec c = utf8 text"
    using c by (simp add: encryptPayload_def decryptPayload_def assms(2))
  moreover have "\<exists>c. encryptCommand dev plaintext = Inr c \<and> decryptFrame dev c = Inr plaintext"
    using c' by (simp add: encryptCommand_def decryptFrame_def assms(3))
  ultimately show ?thesis
    using c' by blast
qed

theorem cipher_roundtrip_witness:
  "length (utf8 ''0123456789abcdef'') = 16
   \<and> cipher_key example_decoder = utf8 ''0123456789abcdef''
   \<and> utf8 (localKey example_device) = utf8 ''0123456789abcdef''
   \<and> (\<exists>c. aes_128_ecb_encrypt (utf8 ''0123456789abcdef'') (utf8 ''{}'') = Inr c
          \<and> aes_128_ecb_decrypt (utf8 ''0123456789abcdef'') c = Inr (utf8 ''{}''))
   \<and> (\<exists>c. encryptPayload example_decoder ''{}'' = Inr c
          \<and> decryptPayload example_decoder c = utf8 ''{}'')
   \<and> (\<exists>c. encryptCommand example_device (utf8 ''{}'') = Inr c
          \<and> decryptFrame example_device c = Inr (utf8 ''{}''))"
proof -
  have k: "length (utf8 ''0123456789abcdef'') = 16"
    by (simp add: utf8_def)
  have d: "cipher_key example_decoder = utf8 ''0123456789abcdef''"
    by (simp add: cipher_key_def example_decoder_def TuyaStreamDecoder_def)
  have v: "utf8 (localKey example_device) = utf8 ''0123456789abcdef''"
    by (simp add: example_device_def on_connect_def TuyaDevice_def)
  show ?thesis
    using k d v cipher_roundtrip [OF k d v] by blast
qed

section \<open>Properties of the control connection's parser\<close>

lemma readUInt32BE_prefix:
  "off + 4 \<le> n \<Longrightarrow> n \<le> length data \<Longrightarrow>
     readUInt32BE (take n data @ rest) off = readUInt32BE data off"
  by (simp add: readUInt32BE_def nth_append)

lemma buffer_slice_prefix:
  "e \<le> n \<Longrightarrow> n \<le> length data \<Longrightarrow>
     buffer_slice (take n data @ rest) s e = buffer_slice data s e"
  by (simp add: buffer_slice_def)

lemma readFrame_short: "length data < 20 \<Longrightarrow> readFrame data = Inr None"
  by (simp add: readFrame_def)

lemma readFrame_no_magic: "take 4 data \<noteq> magic_header \<Longrightarrow> readFrame data = Inr None"
  by (simp add: readFrame_def)

lemma readFrame_incomplete:
  "readUInt32BE data 16 = Inr len \<Longrightarrow> length data < 20 + len \<Longrightarrow> readFrame data = Inr None"
  by (auto simp: readFrame_def readUInt32BE_def)

lemma readFrame_complete:
  assumes "20 \<le> length data" and "take 4 data = magic_header"
    and "readUInt32BE data 8 = Inr command" and "readUInt32BE data 12 = Inr sq"
    and "readUInt32BE data 16 = Inr len" and "20 + len \<le> length data"
  shows "readFrame data = Inr (Some (command, sq, buffer_slice data 20 (20 + len - 8)))"
  using assms by (simp add: readFrame_def)

lemma readUInt32BE_in_range:
  "off + 4 \<le> length data \<Longrightarrow> \<exists>v. readUInt32BE data off = Inr v"
  by (simp add: readUInt32BE_def)

lemma readFrame_trailing:
  assumes "20 \<le> length data" and "take 4 data = magic_header"
    and "readUInt32BE data 16 = Inr len" and "20 + len \<le> length data"
  shows "readFrame (take (20 + len) data @ rest) = readFrame data"
proof -
  let ?d = "take (20 + len) data @ rest"
  obtain command sq where c: "readUInt32BE data 8 = Inr command"
    and q: "readUInt32BE data 12 = Inr sq"
    using readUInt32BE_in_range [of 8 data] readUInt32BE_in_range [of 12 data] assms(1) by auto
  have r: "readUInt32BE ?d off = readUInt32BE data off" if "off + 4 \<le> 20" for off
    using that assms(4) by (intro readUInt32BE_prefix) simp_all
  have "readFrame ?d = Inr (Some (command, sq, buffer_slice ?d 20 (20 + len - 8)))"
    using assms c q by (intro readFrame_complete) (simp_all add: r)
  moreover have "buffer_slice ?d 20 (20 + len - 8) = buffer_slice data 20 (20 + len - 8)"
    using assms(4) by (intro buffer_slice_prefix) simp_all
  ultimately show ?thesis
    using readFrame_complete [OF assms(1,2) c q assms(3,4)] by simp
qed

lemma fold_settle_debug_log:
  "debug_log (fold (\<lambda>(n, call, timeout) s. settle call r (clearTimeout timeout s)) xs st)
     = debug_log st"
  by (induction xs arbitrary: st) (auto simp: settle_def clearTimeout_def)

lemma debug_log_emit_response: "debug_log (emit_response sq payload st) = debug_log st"
  by (simp add: emit_response_def fold_settle_debug_log)

lemma debug_log_handlePayload:
  "debug_log (fst (handlePayload command sq payload st)) = debug_log st @ [Received command payload]"
  by (auto simp: handlePayload_def Let_def debug_log_emit_response debug_def setTimeout_def
      emit_motion_def split: sum.splits option.splits)

lemma handleFrame_debug_log:
  "debug_log (handleFrame JSON_parse command sq encrypted st) = debug_log st
   \<or> debug_log (handleFrame JSON_parse command sq encrypted st) = debug_log st @ [FailedToDecrypt]
   \<or> debug_log (handleFrame JSON_parse command sq encrypted st) = debug_log st @ [FailedToParse]
   \<or> (\<exists>p. debug_log (handleFrame JSON_parse command sq encrypted st)
           = debug_log st @ [Received command p])
   \<or> (\<exists>p. debug_log (handleFrame JSON_parse command sq encrypted st)
           = debug_log st @ [Received command p, FailedToParse])"
proof (cases "decryptFrame st encrypted")
  case (Inl e)
  then show ?thesis by (simp add: handleFrame_def debug_def)
next
  case (Inr decrypted)
  let ?s = "filter (\<lambda>c. c \<noteq> CHR 0x00) (buffer_toString decrypted)"
  show ?thesis
  proof (cases "?s = [] \<or> JSON_parse ?s = None")
    case True
    then show ?thesis
      using Inr by (auto simp: handleFrame_def debug_def Let_def)
  next
    case False
    then obtain p where p: "JSON_parse ?s = Some p" and n: "?s \<noteq> []"
      by auto
    obtain st' r where h: "handlePayload command sq p st = (st', r)"
      by (cases "handlePayload command sq p st")
    then have "debug_log st' = debug_log st @ [Received command p]"
      using debug_log_handlePayload [of command sq p st] by simp
    then show ?thesis
      using Inr p n h by (cases r) (simp_all add: handleFrame_def debug_def Let_def)
  qed
qed

lemma handleFrame_at_most_one:
  "length (filter (\<lambda>e. e \<noteq> FailedToDecrypt \<and> e \<noteq> FailedToParse)
             (debug_log (handleFrame JSON_parse command sq encrypted st)))
   \<le> length (filter (\<lambda>e. e \<noteq> FailedToDecrypt \<and> e \<noteq> FailedToParse) (debug_log st)) + 1"
  using handleFrame_debug_log [of JSON_parse command sq encrypted st] by auto

text \<open>Claim C10.  The control connection looks at each chunk on its own.  A chunk that is
  shorter than 20 bytes, or does not start with the magic header, or is shorter than the frame
  its length field announces, changes nothing.  Any other chunk is handled as the one frame at
  its start: the bytes after that frame do not matter, and at most one payload is
  dispatched.\<close>

theorem control_chunk_in_isolation:
  assumes "length chunk < 20 \<or> take 4 chunk \<noteq> magic_header
           \<or> (\<exists>n. readUInt32BE chunk 16 = Inr n \<and> length chunk < 20 + n)"
    and "20 \<le> length data" and "take 4 data = magic_header"
    and "readUInt32BE data 8 = Inr command" and "readUInt32BE data 12 = Inr sq"
    and "readUInt32BE data 16 = Inr len" and "20 + len \<le> length data"
  shows "handleData JSON_parse chunk st = Inr st
    \<and> handleData JSON_parse data st
        = Inr (handleFrame JSON_parse command sq (buffer_slice data 20 (20 + len - 8)) st)
    \<and> handleData JSON_parse (take (20 + len) data @ rest) st = handleData JSON_parse data st
    \<and> length (filter (\<lambda>e. e \<noteq> FailedToDecrypt \<and> e \<noteq> FailedToParse)
         (debug_log (handleFrame JSON_parse command sq (buffer_slice data 20 (20 + len - 8)) st)))
       \<le> length (filter (\<lambda>e. e \<noteq> FailedToDecrypt \<and> e \<noteq> FailedToParse) (debug_log st)) + 1"
proof -
  have "readFrame chunk = Inr None"
    using assms(1) readFrame_short readFrame_no_magic readFrame_incomplete by blast
  then have a: "handleData JSON_parse chunk st = Inr st"
    by (simp add: handleData_def)
  have b: "handleData JSON_parse data st
      = Inr (handleFrame JSON_parse command sq (buffer_slice data 20 (20 + len - 8)) st)"
    using readFrame_complete [OF assms(2-7)] by (simp add: handleData_def)
  have c: "handleData JSON_parse (take (20 + len) data @ rest) st = handleData JSON_parse data st"
    using readFrame_trailing [OF assms(2,3,6,7)] by (simp add: handleData_def)
  show ?thesis
    using a b c handleFrame_at_most_one by blast
qed

theorem control_chunk_in_isolation_witness:
  "length ([] :: buffer) < 20
   \<and> readUInt32BE [0x00, 0x00, 0x55, 0xaa, 0, 0, 0, 0, 0, 0, 0, 8, 0, 0, 0, 1, 0, 0, 0, 0] 16 = Inr 0
   \<and> handleData (\<lambda>s. None) [] example_device = Inr example_device
   \<and> handleData (\<lambda>s. None)
         [0x00, 0x00, 0x55, 0xaa, 0, 0, 0, 0, 0, 0, 0, 8, 0, 0, 0, 1, 0, 0, 0, 0] example_device
       = Inr (handleFrame (\<lambda>s. None) 8 1 [] example_device)
   \<and> handleData (\<lambda>s. None)
         ([0x00, 0x00, 0x55, 0xaa, 0, 0, 0, 0, 0, 0, 0, 8, 0, 0, 0, 1, 0, 0, 0, 0] @ [0xde, 0xad])
         example_device
       = handleData (\<lambda>s. None)
         [0x00, 0x00, 0x55, 0xaa, 0, 0, 0, 0, 0, 0, 0, 8, 0, 0, 0, 1, 0, 0, 0, 0] example_device"
proof -
  let ?d = "[0x00, 0x00, 0x55, 0xaa, 0, 0, 0, 0, 0, 0, 0, 8, 0, 0, 0, 1, 0, 0, 0, 0] :: buffer"
  have h1: "length ([] :: buffer) < 20 \<or> take 4 ([] :: buffer) \<noteq> magic_header
      \<or> (\<exists>n. readUInt32BE [] 16 = Inr n \<and> length ([] :: buffer) < 20 + n)"
    by simp
  have h2: "20 \<le> length ?d" by simp
  have h3: "take 4 ?d = magic_header" by (simp add: magic_header_def)
  have h4: "readUInt32BE ?d 8 = Inr 8" by (simp add: readUInt32BE_def)
  have h5: "readUInt32BE ?d 12 = Inr 1" by (simp add: readUInt32BE_def)
  have h6: "readUInt32BE ?d 16 = Inr 0" by (simp add: readUInt32BE_def)
  have h7: "20 + 0 \<le> length ?d" by simp
  show ?thesis
    using h6 control_chunk_in_isolation [OF h1 h2 h3 h4 h5 h6 h7,
        of "\<lambda>s. None" example_device "[0xde, 0xad]"]
    by (simp add: buffer_slice_def)
qed

section \<open>The encoder against the parser\<close>

lemma length_u32be: "length (u32be w) = 4"
  by (simp add: u32be_def)

lemma unat_ucast_byte_drop:
  "unat (ucast (drop_bit k (w :: 32 word)) :: byte) = (unat w div 2 ^ k) mod 256"
  by (simp only: unsigned_ucast_eq unat_drop_bit_eq) (simp add: take_bit_eq_mod drop_bit_eq_div)

lemma be_digits:
  assumes "x < 2 ^ 32"
  shows "(x div 2 ^ 24) mod 256 * 2 ^ 24 + (x div 2 ^ 16) mod 256 * 2 ^ 16
      + (x div 2 ^ 8) mod 256 * 2 ^ 8 + x mod 256 = (x :: nat)"
proof -
  have a: "x mod 2 ^ 16 = 2 ^ 8 * (x div 2 ^ 8 mod 2 ^ 8) + x mod 2 ^ 8"
    using mod_mult2_eq [of x "2 ^ 8" "2 ^ 8"] by simp
  have b: "x mod 2 ^ 24 = 2 ^ 16 * (x div 2 ^ 16 mod 2 ^ 8) + x mod 2 ^ 16"
    using mod_mult2_eq [of x "2 ^ 16" "2 ^ 8"] by simp
  have c: "x mod 2 ^ 32 = 2 ^ 24 * (x div 2 ^ 24 mod 2 ^ 8) + x mod 2 ^ 24"
    using mod_mult2_eq [of x "2 ^ 24" "2 ^ 8"] by simp
  have "x mod 2 ^ 32 = x"
    using assms by simp
  with a b c show ?thesis by simp
qed

lemma readUInt32BE_u32be:
  "readUInt32BE (pre @ u32be w @ post) (length pre) = Inr (unat w)"
proof -
  have "unat w < 2 ^ 32"
    using unsigned_less [of w] by simp
  then show ?thesis
    using be_digits [of "unat w"] unat_ucast_byte_drop [of 0 w]
    by (simp add: readUInt32BE_def u32be_def nth_append unat_ucast_byte_drop)
qed

lemma length_calculateCRC: "length (calculateCRC data) = 4"
  by (simp add: calculateCRC_def length_u32be)

lemma take_4_magic: "take 4 (magic_header @ rest) = magic_header"
  by (simp add: magic_header_def)

text \<open>What \<open>readFrame\<close> makes of a packet laid out as \<open>buildPacket\<close> lays it out: the
  sequence field is taken for the command and the length field for the sequence.\<close>

lemma readFrame_of_layout:
  assumes "length tail = 8"
  shows "readFrame (magic_header @ u32be c @ u32be s @ u32be l @ payload @ tail) = Inr None
    \<or> (\<exists>enc. readFrame (magic_header @ u32be c @ u32be s @ u32be l @ payload @ tail)
          = Inr (Some (unat s, unat l, enc)))"
proof -
  let ?p = "magic_header @ u32be c @ u32be s @ u32be l @ payload @ tail"
  have r8: "readUInt32BE ?p 8 = Inr (unat s)"
    using readUInt32BE_u32be [of "magic_header @ u32be c" s "u32be l @ payload @ tail"]
    by (simp add: magic_header_def length_u32be)
  have r12: "readUInt32BE ?p 12 = Inr (unat l)"
    using readUInt32BE_u32be [of "magic_header @ u32be c @ u32be s" l "payload @ tail"]
    by (simp add: magic_header_def length_u32be)
  obtain n where r16: "readUInt32BE ?p 16 = Inr n"
    using readUInt32BE_in_range [of 16 ?p] assms by (auto simp: magic_header_def length_u32be)
  show ?thesis
    unfolding readFrame_def [of ?p]
    by (simp add: r8 r12 r16 take_4_magic)
qed

lemma writeUInt32BE_Inr: "v < 2 ^ 32 \<Longrightarrow> writeUInt32BE v = Inr (u32be (of_nat v))"
  by (simp add: writeUInt32BE_def)

lemma unat_of_nat_32: "v < 2 ^ 32 \<Longrightarrow> unat (of_nat v :: 32 word) = v"
  by (simp add: unat_of_nat)

text \<open>Claim C1 fails on the code.  \<open>buildPacket\<close> writes the command at offset 4, the
  sequence at offset 8 and the length at offset 12; \<open>handleData\<close> reads the command at offset
  8, the sequence at offset 12 and the length at offset 16.  So whenever the parser accepts a
  packet of the encoder at all, it returns the sequence number as the command and the length
  field as the sequence.\<close>

theorem encoder_fields_misread:
  assumes "command < 2 ^ 32" and "sequence st + 1 < 2 ^ 32" and "length payload + 8 < 2 ^ 32"
  shows "\<exists>packet.
           buildPacket command payload st = (Inr packet, st\<lparr>sequence := sequence st + 1\<rparr>)
           \<and> take 4 (drop 4 packet) = u32be (of_nat command)
           \<and> take 4 (drop 8 packet) = u32be (of_nat (sequence st + 1))
           \<and> take 4 (drop 12 packet) = u32be (of_nat (length payload + 8))
           \<and> (readFrame packet = Inr None
                \<or> (\<exists>enc. readFrame packet
                       = Inr (Some (sequence st + 1, length payload + 8, enc))))"
proof -
  let ?c = "of_nat command :: 32 word" and ?s = "of_nat (sequence st + 1) :: 32 word"
    and ?l = "of_nat (length payload + 8) :: 32 word"
  let ?crcData = "magic_header @ u32be ?c @ u32be ?s @ u32be ?l @ payload"
  let ?packet = "?crcData @ calculateCRC ?crcData @ magic_footer"
  have b: "buildPacket command payload st = (Inr ?packet, st\<lparr>sequence := sequence st + 1\<rparr>)"
    using assms by (simp add: buildPacket_def Let_def writeUInt32BE_Inr)
  have t: "length (calculateCRC ?crcData @ magic_footer) = 8"
    by (simp add: length_calculateCRC magic_footer_def)
  have r: "readFrame ?packet = Inr None
    \<or> (\<exists>enc. readFrame ?packet = Inr (Some (unat ?s, unat ?l, enc)))"
    using readFrame_of_layout [OF t, of ?c ?s ?l payload] by simp
  have f: "take 4 (drop 4 ?packet) = u32be ?c" "take 4 (drop 8 ?packet) = u32be ?s"
    "take 4 (drop 12 ?packet) = u32be ?l"
    by (simp_all add: magic_header_def length_u32be)
  have r': "readFrame ?packet = Inr None
    \<or> (\<exists>enc. readFrame ?packet = Inr (Some (sequence st + 1, length payload + 8, enc)))"
    using r by (simp only: unat_of_nat_32 [OF assms(2)] unat_of_nat_32 [OF assms(3)])
  show ?thesis
    by (intro exI [of _ ?packet] conjI b f r')
qed

theorem encoder_fields_misread_witness:
  "(10 :: nat) < 2 ^ 32
   \<and> sequence example_device + 1 < 2 ^ 32
   \<and> length ([] :: buffer) + 8 < 2 ^ 32
   \<and> (\<exists>packet.
         buildPacket 10 [] example_device
           = (Inr packet, example_device\<lparr>sequence := 1\<rparr>)
         \<and> take 4 (drop 4 packet) = u32be 10
         \<and> take 4 (drop 8 packet) = u32be 1
         \<and> (readFrame packet = Inr None \<or> (\<exists>enc. readFrame packet = Inr (Some (1, 8, enc)))))"
proof -
  let ?st = "example_device"
  have h1: "(10 :: nat) < 2 ^ 32" by simp
  have h2: "sequence ?st + 1 < 2 ^ 32" by (simp add: example_device_def on_connect_def TuyaDevice_def)
  have h3: "length ([] :: buffer) + 8 < 2 ^ 32" by simp
  have s: "sequence ?st = 0" by (simp add: example_device_def on_connect_def TuyaDevice_def)
  show ?thesis
    using h1 h2 h3 encoder_fields_misread [OF h1 h2 h3] unfolding s by auto
qed

text \<open>The frame \<open>buildPacket\<close> builds for command 10 and an empty payload on a fresh
  connection, and what the parser of the same class does with it: the checksum is taken for the
  length, and the frame is dropped as incomplete.\<close>

lemma calculateCRC_example:
  "calculateCRC [0x00, 0x00, 0x55, 0xaa, 0, 0, 0, 10, 0, 0, 0, 1, 0, 0, 0, 8] = [0xc0, 0xcd, 0xcd, 0x7d]"
  by code_simp

lemma encoder_frame_dropped:
  "buildPacket 10 [] example_device
     = (Inr [0x00, 0x00, 0x55, 0xaa, 0, 0, 0, 10, 0, 0, 0, 1, 0, 0, 0, 8, 0xc0, 0xcd, 0xcd, 0x7d,
             0x00, 0x00, 0xaa, 0x55],
        example_device\<lparr>sequence := 1\<rparr>)
   \<and> readFrame [0x00, 0x00, 0x55, 0xaa, 0, 0, 0, 10, 0, 0, 0, 1, 0, 0, 0, 8, 0xc0, 0xcd, 0xcd, 0x7d,
                0x00, 0x00, 0xaa, 0x55] = Inr None"
  by (simp add: buildPacket_def writeUInt32BE_def u32be_def magic_header_def magic_footer_def
      calculateCRC_example readFrame_def readUInt32BE_def example_device_def on_connect_def TuyaDevice_def)

section \<open>Properties of the stream connection's scan\<close>

text \<open>Claim C2 fails on the code.  When the buffer holds at least 20 bytes that do not start
  with the magic header, and the next magic header stands fewer than 20 bytes before the end of
  the buffer, the loop cuts the buffer at that header and reads the header fields at once:
  \<open>readUInt32BE\<close> throws out of \<open>handleStreamData\<close>.\<close>

theorem scan_throws_after_resync:
  assumes "20 \<le> length (frameBuffer st @ data)"
    and "take 4 (frameBuffer st @ data) \<noteq> magic_header"
    and "indexOf (frameBuffer st @ data) magic_header 1 = int i"
    and "0 < i"
    and "length (frameBuffer st @ data) < i + 20"
  shows "handleStreamData data st = Inl RangeError"
proof -
  let ?fb = "drop i (frameBuffer st @ data)"
  have r: "resync (frameBuffer st @ data) = Some ?fb"
    using assms(2,3,4) by (simp add: resync_def)
  have l: "length ?fb < 20"
    using assms(5) by simp
  have "readUInt32BE ?fb 8 = Inl RangeError \<or>
    ((\<exists>c. readUInt32BE ?fb 8 = Inr c) \<and> readUInt32BE ?fb 16 = Inl RangeError)"
    using l by (simp add: readUInt32BE_def)
  then show ?thesis
    unfolding handleStreamData_def
    by (subst scan.simps) (use assms(1) r in auto)
qed

theorem scan_throws_after_resync_witness:
  "20 \<le> length (frameBuffer example_decoder
                  @ replicate 16 0xFF @ magic_header)
   \<and> indexOf (frameBuffer example_decoder
                @ replicate 16 0xFF @ magic_header) magic_header 1 = 16
   \<and> handleStreamData (replicate 16 0xFF @ magic_header)
         example_decoder = Inl RangeError"
proof -
  let ?st = "example_decoder"
  let ?data = "replicate 16 0xFF @ magic_header :: buffer"
  have b: "frameBuffer ?st @ ?data
      = [0xFF, 0xFF, 0xFF, 0xFF, 0xFF, 0xFF, 0xFF, 0xFF, 0xFF, 0xFF, 0xFF, 0xFF, 0xFF, 0xFF,
         0xFF, 0xFF, 0x00, 0x00, 0x55, 0xaa]"
    by (simp add: example_decoder_def TuyaStreamDecoder_def magic_header_def numeral_eq_Suc)
  have h1: "20 \<le> length (frameBuffer ?st @ ?data)"
    by (simp add: magic_header_def)
  have h2: "take 4 (frameBuffer ?st @ ?data) \<noteq> magic_header"
    unfolding b by (simp add: magic_header_def)
  have h3: "indexOf (frameBuffer ?st @ ?data) magic_header 1 = int 16"
    unfolding b by (simp add: indexOf_def magic_header_def upt_rec)
  have h4: "0 < (16 :: nat)" by simp
  have h5: "length (frameBuffer ?st @ ?data) < 16 + 20"
    by (simp add: magic_header_def example_decoder_def TuyaStreamDecoder_def)
  show ?thesis
    using h1 h3 scan_throws_after_resync [OF h1 h2 h3 h4 h5] by simp
qed

section \<open>Keys\<close>


text \<open>Known answers: the digests of the empty string and of \<open>abc\<close> from RFC 1321.\<close>

lemma md5_empty:
  "md5 [] = [0xd4, 0x1d, 0x8c, 0xd9, 0x8f, 0x00, 0xb2, 0x04, 0xe9, 0x80, 0x09, 0x98, 0xec, 0xf8, 0x42, 0x7e]"
  by code_simp

lemma md5_abc:
  "md5 (utf8 ''abc'')
     = [0x90, 0x01, 0x50, 0x98, 0x3c, 0xd2, 0x4f, 0xb0, 0xd6, 0x96, 0x3f, 0x7d, 0x28, 0xe1, 0x7f, 0x72]"
  by code_simp








section \<open>Frames that arrive in pieces\<close>





lemma process_packet_frameBuffer_update:
  "process_packet command len f (st\<lparr>frameBuffer := b, frameBuffer := []\<rparr>)
     = process_packet command len f (st\<lparr>frameBuffer := []\<rparr>)"
  by simp








text \<open>A frame for the control connection: command 8, sequence 1, and as payload the encryption
  of \<open>{}\<close> under the key of the example device.\<close>

lemma example_encrypt:
  "aes_128_ecb_encrypt (utf8 ''0123456789abcdef'') (utf8 ''{}'')
   = Inr [0xcb, 0x70, 0xdd, 0xc2, 0x5a, 0x2a, 0x20, 0x45, 0xb4, 0xc1, 0x30, 0x84, 0x41, 0x8a, 0x9a, 0xbb]"
  by code_simp




section \<open>Effects of the primitive operations\<close>

lemma settle_fields:
  "responders (settle call r st) = responders st"
  "timers (settle call r st) = timers st"
  "next_timer (settle call r st) = next_timer st"
  "now (settle call r st) = now st"
  "motion_events (settle call r st) = motion_events st"
  "sequence (settle call r st) = sequence st"
  "length (promises (settle call r st)) = length (promises st)"
  by (simp_all add: settle_def)

lemma clearTimeout_fields:
  "responders (clearTimeout t st) = responders st"
  "timers (clearTimeout t st) = filter (\<lambda>x. fst x \<noteq> t) (timers st)"
  "next_timer (clearTimeout t st) = next_timer st"
  "now (clearTimeout t st) = now st"
  "motion_events (clearTimeout t st) = motion_events st"
  "sequence (clearTimeout t st) = sequence st"
  "promises (clearTimeout t st) = promises st"
  by (simp_all add: clearTimeout_def case_prod_unfold)

lemma debug_fields:
  "responders (debug e st) = responders st"
  "timers (debug e st) = timers st"
  "next_timer (debug e st) = next_timer st"
  "now (debug e st) = now st"
  "motion_events (debug e st) = motion_events st"
  "sequence (debug e st) = sequence st"
  "promises (debug e st) = promises st"
  by (simp_all add: debug_def)

lemma emit_motion_fields:
  "responders (emit_motion b st) = responders st"
  "timers (emit_motion b st) = timers st"
  "next_timer (emit_motion b st) = next_timer st"
  "now (emit_motion b st) = now st"
  "motion_events (emit_motion b st) = motion_events st @ [(now st, b)]"
  "sequence (emit_motion b st) = sequence st"
  "promises (emit_motion b st) = promises st"
  by (simp_all add: emit_motion_def)

lemma setTimeout_fields:
  "fst (setTimeout cb delay st) = next_timer st"
  "responders (snd (setTimeout cb delay st)) = responders st"
  "timers (snd (setTimeout cb delay st)) = timers st @ [(next_timer st, now st + delay, cb)]"
  "next_timer (snd (setTimeout cb delay st)) = next_timer st + 1"
  "now (snd (setTimeout cb delay st)) = now st"
  "motion_events (snd (setTimeout cb delay st)) = motion_events st"
  "sequence (snd (setTimeout cb delay st)) = sequence st"
  "promises (snd (setTimeout cb delay st)) = promises st"
  by (simp_all add: setTimeout_def)

lemma new_promise_fields:
  "fst (new_promise r st) = length (promises st)"
  "responders (snd (new_promise r st)) = responders st"
  "timers (snd (new_promise r st)) = timers st"
  "next_timer (snd (new_promise r st)) = next_timer st"
  "now (snd (new_promise r st)) = now st"
  "motion_events (snd (new_promise r st)) = motion_events st"
  "sequence (snd (new_promise r st)) = sequence st"
  "promises (snd (new_promise r st)) = promises st @ [r]"
  by (simp_all add: new_promise_def)

lemma buildPacket_fields:
  "responders (snd (buildPacket c p st)) = responders st"
  "timers (snd (buildPacket c p st)) = timers st"
  "next_timer (snd (buildPacket c p st)) = next_timer st"
  "now (snd (buildPacket c p st)) = now st"
  "motion_events (snd (buildPacket c p st)) = motion_events st"
  "sequence (snd (buildPacket c p st)) = sequence st + 1"
  "promises (snd (buildPacket c p st)) = promises st"
  by (simp_all add: buildPacket_def Let_def split: sum.splits)

text \<open>What \<open>sendCommand\<close> does when it fails at once, and when it sends.\<close>

lemma sendCommand_cases:
  "(\<exists>e. sendCommand S c p st
          = new_promise (Some (Rejected e)) st)
   \<or> (\<exists>e. sendCommand S c p st
          = new_promise (Some (Rejected e)) (st\<lparr>sequence := sequence st + 1\<rparr>))
   \<or> (\<exists>packet. buildPacket c (projr (encryptCommand st (utf8 (S (command_data st p))))) st
                 = (Inr packet, st\<lparr>sequence := sequence st + 1\<rparr>)
        \<and> sendCommand S c p st
          = (length (promises st),
             st\<lparr>sequence := sequence st + 1,
                promises := promises st @ [None],
                timers := timers st @ [(next_timer st, now st + 5000,
                                        RejectCall (length (promises st)) CommandTimeout)],
                next_timer := next_timer st + 1,
                responders := responders st @ [(sequence st + 1, length (promises st), next_timer st)],
                written := written st @ [packet]\<rparr>))"
proof (cases "\<not> connected st \<or> \<not> socket st")
  case True
  then show ?thesis by (auto simp: sendCommand_def)
next
  case conn: False
  show ?thesis
  proof (cases "encryptCommand st (utf8 (S (command_data st p)))")
    case (Inl e)
    with conn show ?thesis by (auto simp: sendCommand_def)
  next
    case (Inr encrypted)
    obtain r st1 where b: "buildPacket c encrypted st = (r, st1)"
      by (cases "buildPacket c encrypted st")
    have st1: "st1 = st\<lparr>sequence := sequence st + 1\<rparr>"
      using b by (auto simp: buildPacket_def Let_def split: sum.splits)
    show ?thesis
    proof (cases r)
      case (Inl e)
      with conn Inr b st1 show ?thesis by (auto simp: sendCommand_def)
    next
      case (Inr packet)
      with conn \<open>encryptCommand st (utf8 (S (command_data st p))) = Inr encrypted\<close> b st1
      show ?thesis
        by (simp add: sendCommand_def new_promise_def setTimeout_def)
    qed
  qed
qed

section \<open>Correlation of commands and responses\<close>

lemma fold_respond_fields:
  "responders (fold (\<lambda>(n, call, timeout) s. settle call r (clearTimeout timeout s)) xs st)
     = responders st"
  "next_timer (fold (\<lambda>(n, call, timeout) s. settle call r (clearTimeout timeout s)) xs st)
     = next_timer st"
  "now (fold (\<lambda>(n, call, timeout) s. settle call r (clearTimeout timeout s)) xs st) = now st"
  "motion_events (fold (\<lambda>(n, call, timeout) s. settle call r (clearTimeout timeout s)) xs st)
     = motion_events st"
  "sequence (fold (\<lambda>(n, call, timeout) s. settle call r (clearTimeout timeout s)) xs st)
     = sequence st"
  "length (promises (fold (\<lambda>(n, call, timeout) s. settle call r (clearTimeout timeout s)) xs st))
     = length (promises st)"
  by (induction xs arbitrary: st; simp add: settle_fields clearTimeout_fields case_prod_unfold)+

lemma fold_respond_timers:
  "timers (fold (\<lambda>(n, call, timeout) s. settle call r (clearTimeout timeout s)) xs st)
     = filter (\<lambda>x. fst x \<notin> (snd \<circ> snd) ` set xs) (timers st)"
proof (induction xs arbitrary: st)
  case Nil
  then show ?case by simp
next
  case (Cons x xs)
  obtain n call timeout where x: "x = (n, call, timeout)"
    by (cases x)
  show ?case
    by (auto simp: x Cons.IH settle_fields clearTimeout_fields intro!: filter_cong)
qed

lemma promises_settle:
  "c < length (promises st) \<Longrightarrow>
     promises (settle call r st) ! c
       = (if c = call \<and> promises st ! c = None then Some r else promises st ! c)"
  by (auto simp: settle_def)

lemma fold_respond_promises:
  "c < length (promises st) \<Longrightarrow>
     promises (fold (\<lambda>(n, call, timeout) s. settle call (Resolved r) (clearTimeout timeout s)) xs st) ! c
       = (if promises st ! c = None \<and> c \<in> (fst \<circ> snd) ` set xs then Some (Resolved r)
          else promises st ! c)"
proof (induction xs arbitrary: st)
  case Nil
  then show ?case by simp
next
  case (Cons x xs)
  obtain n call timeout where x: "x = (n, call, timeout)"
    by (cases x)
  let ?st1 = "settle call (Resolved r) (clearTimeout timeout st)"
  let ?f = "\<lambda>(n, call, timeout) s. settle call (Resolved r) (clearTimeout timeout s)"
  have l: "c < length (promises ?st1)"
    using Cons.prems by (simp add: settle_fields clearTimeout_fields)
  have p: "promises ?st1 ! c
      = (if c = call \<and> promises st ! c = None then Some (Resolved r) else promises st ! c)"
    using Cons.prems by (auto simp: promises_settle clearTimeout_fields)
  have f: "promises (fold ?f (x # xs) st) ! c
      = (if promises ?st1 ! c = None \<and> c \<in> (fst \<circ> snd) ` set xs then Some (Resolved r)
         else promises ?st1 ! c)"
    using Cons.IH [OF l] by (simp add: x)
  show ?case
  proof (cases "promises st ! c")
    case None
    then show ?thesis
      unfolding f p by (cases "c = call") (auto simp: x)
  next
    case (Some v)
    then show ?thesis
      unfolding f p by simp
  qed
qed

lemma promises_emit_response:
  "c < length (promises st) \<Longrightarrow>
     promises (emit_response sq payload st) ! c
       = (if promises st ! c = None \<and> (\<exists>timeout. (sq, c, timeout) \<in> set (responders st))
          then Some (Resolved payload) else promises st ! c)"
  unfolding emit_response_def
  by (subst fold_respond_promises) (auto simp: image_iff)

lemma responders_emit_response:
  "responders (emit_response sq payload st) = filter (\<lambda>x. fst x \<noteq> sq) (responders st)"
  by (simp add: emit_response_def fold_respond_fields) (simp add: case_prod_unfold)

lemma emit_response_fields:
  "next_timer (emit_response sq payload st) = next_timer st"
  "now (emit_response sq payload st) = now st"
  "motion_events (emit_response sq payload st) = motion_events st"
  "sequence (emit_response sq payload st) = sequence st"
  "length (promises (emit_response sq payload st)) = length (promises st)"
  by (simp_all add: emit_response_def fold_respond_fields)

lemma timers_emit_response:
  "timers (emit_response sq payload st)
     = filter (\<lambda>x. fst x \<notin> (snd \<circ> snd) ` {y \<in> set (responders st). fst y = sq}) (timers st)"
  by (simp add: emit_response_def fold_respond_timers) (simp add: case_prod_unfold)

lemma handlePayload_state:
  "fst (handlePayload command sq payload st)
     = (if command = 8 \<and> has_motion_dp payload
        then snd (setTimeout (EmitMotion False) 30000
                   (emit_motion True (emit_response sq payload (debug (Received command payload) st))))
        else emit_response sq payload (debug (Received command payload) st))"
  by (auto simp: handlePayload_def has_motion_dp_def Let_def split: sum.splits option.splits)

lemma handlePayload_promises:
  "c < length (promises st) \<Longrightarrow>
     promises (fst (handlePayload command sq payload st)) ! c
       = (if promises st ! c = None \<and> (\<exists>timeout. (sq, c, timeout) \<in> set (responders st))
          then Some (Resolved payload) else promises st ! c)"
  by (simp add: handlePayload_state setTimeout_fields emit_motion_fields promises_emit_response
      debug_fields)

lemma handlePayload_responders:
  "responders (fst (handlePayload command sq payload st)) = filter (\<lambda>x. fst x \<noteq> sq) (responders st)"
  by (simp add: handlePayload_state setTimeout_fields emit_motion_fields
      responders_emit_response debug_fields)

lemma handlePayload_length_promises:
  "length (promises (fst (handlePayload command sq payload st))) = length (promises st)"
  by (simp add: handlePayload_state setTimeout_fields emit_motion_fields emit_response_fields
      debug_fields)

lemma sendCommand_pending:
  assumes "sendCommand S c p st = (call, st1)" and "promises st1 ! call = None"
  shows "\<exists>packet.
           buildPacket c (projr (encryptCommand st (utf8 (S (command_data st p))))) st
             = (Inr packet, st\<lparr>sequence := sequence st + 1\<rparr>)
           \<and> call = length (promises st)
           \<and> st1 = st\<lparr>sequence := sequence st + 1,
                       promises := promises st @ [None],
                       timers := timers st @ [(next_timer st, now st + 5000,
                                               RejectCall (length (promises st)) CommandTimeout)],
                       next_timer := next_timer st + 1,
                       responders := responders st
                                     @ [(sequence st + 1, length (promises st), next_timer st)],
                       written := written st @ [packet]\<rparr>"
  using sendCommand_cases [of S c p st] assms
  by (auto simp: new_promise_def nth_append)

lemma buildPacket_sequence_field:
  assumes "buildPacket c payload st = (Inr packet, st')"
  shows "readUInt32BE packet 8 = Inr (sequence st + 1)"
proof -
  from assms have s: "sequence st + 1 < 2 ^ 32"
    by (auto simp: buildPacket_def Let_def writeUInt32BE_def split: sum.splits if_splits)
  from assms obtain cmd len where
    "packet = (magic_header @ cmd) @ u32be (of_nat (sequence st + 1))
              @ (len @ payload @ calculateCRC (magic_header @ cmd @ u32be (of_nat (sequence st + 1))
                                               @ len @ payload) @ magic_footer)"
    and "length cmd = 4"
    by (auto simp: buildPacket_def Let_def writeUInt32BE_def length_u32be
        split: sum.splits if_splits)
  then show ?thesis
    using readUInt32BE_u32be [of "magic_header @ cmd" "of_nat (sequence st + 1)"]
      unat_of_nat_32 [OF s]
    by (simp add: magic_header_def)
qed

text \<open>The dispatch itself goes by the number it is given.  Two commands sent back to back
  are registered under \<open>N\<close> and \<open>N + 1\<close>, where \<open>N\<close> is the counter plus one, and their
  frames carry these numbers in the sequence field.  When \<open>handlePayload\<close> is called with
  \<open>N + 1\<close> and then with \<open>N\<close>, the promise of the first call is resolved with the
  payload given with \<open>N\<close> and the promise of the second call with the payload given with
  \<open>N + 1\<close>.\<close>

lemma dispatch_matches_by_sequence:
  assumes "registrations_wf st"
    and "sendCommand S c1 p1 st = (call1, st1)" and "promises st1 ! call1 = None"
    and "sendCommand S c2 p2 st1 = (call2, st2)" and "promises st2 ! call2 = None"
  shows "sequence st1 = sequence st + 1 \<and> sequence st2 = sequence st + 2
    \<and> (\<exists>packet1 packet2.
          written st2 = written st @ [packet1, packet2]
          \<and> readUInt32BE packet1 8 = Inr (sequence st + 1)
          \<and> readUInt32BE packet2 8 = Inr (sequence st + 2))
    \<and> promises (fst (handlePayload k1 (sequence st + 1) r1
                   (fst (handlePayload k2 (sequence st + 2) r2 st2)))) ! call1
        = Some (Resolved r1)
    \<and> promises (fst (handlePayload k1 (sequence st + 1) r1
                   (fst (handlePayload k2 (sequence st + 2) r2 st2)))) ! call2
        = Some (Resolved r2)"
proof -
  define N where "N = sequence st + 1"
  obtain packet1 where b1: "buildPacket c1 (projr (encryptCommand st (utf8 (S (command_data st p1))))) st
      = (Inr packet1, st\<lparr>sequence := sequence st + 1\<rparr>)"
    and call1: "call1 = length (promises st)"
    and st1: "st1 = st\<lparr>sequence := sequence st + 1,
                       promises := promises st @ [None],
                       timers := timers st @ [(next_timer st, now st + 5000,
                                               RejectCall (length (promises st)) CommandTimeout)],
                       next_timer := next_timer st + 1,
                       responders := responders st
                                     @ [(sequence st + 1, length (promises st), next_timer st)],
                       written := written st @ [packet1]\<rparr>"
    using sendCommand_pending [OF assms(2,3)] by blast
  obtain packet2 where b2: "buildPacket c2 (projr (encryptCommand st1 (utf8 (S (command_data st1 p2))))) st1
      = (Inr packet2, st1\<lparr>sequence := sequence st1 + 1\<rparr>)"
    and call2: "call2 = length (promises st1)"
    and st2: "st2 = st1\<lparr>sequence := sequence st1 + 1,
                       promises := promises st1 @ [None],
                       timers := timers st1 @ [(next_timer st1, now st1 + 5000,
                                               RejectCall (length (promises st1)) CommandTimeout)],
                       next_timer := next_timer st1 + 1,
                       responders := responders st1
                                     @ [(sequence st1 + 1, length (promises st1), next_timer st1)],
                       written := written st1 @ [packet2]\<rparr>"
    using sendCommand_pending [OF assms(4,5)] by blast
  have sq1: "sequence st1 = N" and sq2: "sequence st2 = N + 1"
    by (simp_all add: st1 st2 N_def)
  have c2: "call2 = call1 + 1"
    by (simp add: call1 call2 st1)
  have resp: "responders st2 = responders st @ [(N, call1, next_timer st), (N + 1, call2, next_timer st1)]"
    by (simp add: st1 st2 N_def call1 call2)
  have prom: "promises st2 = promises st @ [None, None]"
    by (simp add: st1 st2)
  have old: "call < call1" if "(n, call, timeout) \<in> set (responders st)" for n call timeout
    using assms(1) that by (auto simp: registrations_wf_def call1)
  have w: "written st2 = written st @ [packet1, packet2]"
    by (simp add: st1 st2)
  have f1: "readUInt32BE packet1 8 = Inr (sequence st + 1)"
    by (rule buildPacket_sequence_field [OF b1])
  have f2: "readUInt32BE packet2 8 = Inr (sequence st + 2)"
    using buildPacket_sequence_field [OF b2] by (simp add: st1)
  let ?st3 = "fst (handlePayload k2 (N + 1) r2 st2)"
  let ?st4 = "fst (handlePayload k1 N r1 ?st3)"
  have l2: "call1 < length (promises st2)" "call2 < length (promises st2)"
    by (simp_all add: prom call1 c2)
  have n1: "promises st2 ! call1 = None" and n2: "promises st2 ! call2 = None"
    by (simp_all add: prom call1 c2 nth_append)
  have no: "\<not> (\<exists>timeout. (N + 1, call1, timeout) \<in> set (responders st2))"
    using old by (auto simp: resp c2)
  have p31: "promises ?st3 ! call1 = None"
    by (subst handlePayload_promises [OF l2(1)]) (use no n1 in simp)
  have p32: "promises ?st3 ! call2 = Some (Resolved r2)"
    by (subst handlePayload_promises [OF l2(2)]) (use n2 in \<open>auto simp: resp\<close>)
  have l3: "call1 < length (promises ?st3)" "call2 < length (promises ?st3)"
    using l2 by (simp_all add: handlePayload_length_promises)
  have r3: "(N, call1, next_timer st) \<in> set (responders ?st3)"
    by (simp add: handlePayload_responders resp)
  have p41: "promises ?st4 ! call1 = Some (Resolved r1)"
    by (subst handlePayload_promises [OF l3(1)]) (use p31 r3 in auto)
  have p42: "promises ?st4 ! call2 = Some (Resolved r2)"
    by (subst handlePayload_promises [OF l3(2)]) (use p32 in simp)
  show ?thesis
    using sq1 sq2 w f1 f2 p41 p42 unfolding N_def by simp
qed

lemma sendCommand_sent:
  assumes "connected st" and "socket st"
    and "encryptCommand st (utf8 (S (command_data st p))) = Inr enc"
    and "c < 2 ^ 32" and "sequence st + 1 < 2 ^ 32" and "length enc + 8 < 2 ^ 32"
  shows "fst (sendCommand S c p st) = length (promises st)"
    and "promises (snd (sendCommand S c p st)) = promises st @ [None]"
    and "connected (snd (sendCommand S c p st))" and "socket (snd (sendCommand S c p st))"
    and "sequence (snd (sendCommand S c p st)) = sequence st + 1"
    and "localKey (snd (sendCommand S c p st)) = localKey st"
    and "deviceId (snd (sendCommand S c p st)) = deviceId st"
    and "now (snd (sendCommand S c p st)) = now st"
  using assms
  by (simp_all add: sendCommand_def buildPacket_def Let_def writeUInt32BE_Inr new_promise_def
      setTimeout_def)

section \<open>Timeouts\<close>

lemma fire_fields:
  "responders (fire x st) = responders st"
  "next_timer (fire x st) = next_timer st"
  "sequence (fire x st) = sequence st"
  "length (promises (fire x st)) = length (promises st)"
  "timers (fire x st) = filter (\<lambda>y. fst y \<noteq> fst x) (timers st)"
  "now (fire x st) = max (now st) (fst (snd x))"
  by (cases x; cases "snd (snd x)";
      simp add: fire_def settle_def emit_motion_def clearTimeout_def case_prod_unfold)+

lemma fold_fire_fields:
  "responders (fold fire xs st) = responders st"
  "next_timer (fold fire xs st) = next_timer st"
  "sequence (fold fire xs st) = sequence st"
  "length (promises (fold fire xs st)) = length (promises st)"
  by (induction xs arbitrary: st; simp add: fire_fields)+

lemma advance_fields:
  "responders (advance t st) = responders st"
  "next_timer (advance t st) = next_timer st"
  "sequence (advance t st) = sequence st"
  "length (promises (advance t st)) = length (promises st)"
  by (simp_all add: advance_def Let_def fold_fire_fields)

lemma promises_fire:
  "c < length (promises st) \<Longrightarrow>
     promises (fire (timer, due, callback) st) ! c
       = (case callback of
            RejectCall call e \<Rightarrow>
              if c = call \<and> promises st ! c = None then Some (Rejected e) else promises st ! c
          | EmitMotion detected \<Rightarrow> promises st ! c)"
  by (cases callback) (auto simp: fire_def settle_def emit_motion_def clearTimeout_def)

lemma fold_fire_settled:
  "c < length (promises st) \<Longrightarrow> promises st ! c = Some v \<Longrightarrow>
     promises (fold fire xs st) ! c = Some v"
proof (induction xs arbitrary: st)
  case Nil
  then show ?case by simp
next
  case (Cons x xs)
  obtain timer due callback where x: "x = (timer, due, callback)"
    by (cases x)
  have "promises (fire x st) ! c = Some v"
    using Cons.prems by (simp add: x promises_fire split: action.splits)
  moreover have "c < length (promises (fire x st))"
    using Cons.prems by (simp add: fire_fields)
  ultimately show ?case
    using Cons.IH by simp
qed

text \<open>When the timers that fire include the timeout of a pending call, and every timer among
  them that rejects this call does so as a timeout, the call ends rejected as a timeout.\<close>

lemma fold_fire_rejects:
  assumes "\<forall>(timer, due, callback) \<in> set xs.
             \<forall>e. callback = RejectCall c e \<longrightarrow> e = CommandTimeout"
    and "(timer0, due0, RejectCall c CommandTimeout) \<in> set xs"
    and "c < length (promises st)" and "promises st ! c = None"
  shows "promises (fold fire xs st) ! c = Some (Rejected CommandTimeout)"
  using assms
proof (induction xs arbitrary: st)
  case Nil
  then show ?case by simp
next
  case (Cons x xs)
  obtain timer due callback where x: "x = (timer, due, callback)"
    by (cases x)
  have l: "c < length (promises (fire x st))"
    using Cons.prems(3) by (simp add: fire_fields)
  show ?case
  proof (cases "\<exists>e. callback = RejectCall c e")
    case True
    then have "callback = RejectCall c CommandTimeout"
      using Cons.prems(1) by (auto simp: x)
    then have "promises (fire x st) ! c = Some (Rejected CommandTimeout)"
      using Cons.prems(3,4) by (simp add: x promises_fire)
    then show ?thesis
      using fold_fire_settled [OF l] by simp
  next
    case False
    then have n: "promises (fire x st) ! c = None"
      using Cons.prems(3,4) by (auto simp: x promises_fire split: action.splits)
    have m: "(timer0, due0, RejectCall c CommandTimeout) \<in> set xs"
      using False Cons.prems(2) by (auto simp: x)
    have "\<forall>(timer, due, callback) \<in> set xs. \<forall>e. callback = RejectCall c e \<longrightarrow> e = CommandTimeout"
      using Cons.prems(1) by simp
    from Cons.IH [OF this m l n] show ?thesis by simp
  qed
qed

text \<open>Claim C4 fails on the code.  When no response arrives, the timeout of a command that was
  sent rejects its promise with \<open>CommandTimeout\<close> 5000 ms after the call, as the claim says.
  But the timeout callback only rejects: the listener registered under the sequence number of
  the command is still registered afterwards, and stays so however much time passes.\<close>

theorem timeout_rejects_and_leaks:
  assumes "registrations_wf st"
    and "sendCommand S c p st = (call, st1)" and "promises st1 ! call = None"
    and "now st + 5000 \<le> t"
  shows "promises (advance t st1) ! call = Some (Rejected CommandTimeout)
    \<and> (sequence st + 1, call, next_timer st) \<in> set (responders (advance t st1))"
proof -
  obtain packet where call: "call = length (promises st)"
    and st1: "st1 = st\<lparr>sequence := sequence st + 1,
                       promises := promises st @ [None],
                       timers := timers st @ [(next_timer st, now st + 5000,
                                               RejectCall (length (promises st)) CommandTimeout)],
                       next_timer := next_timer st + 1,
                       responders := responders st
                                     @ [(sequence st + 1, length (promises st), next_timer st)],
                       written := written st @ [packet]\<rparr>"
    using sendCommand_pending [OF assms(2,3)] by blast
  let ?due = "sort_key (\<lambda>(timer, due, callback). due)
                (filter (\<lambda>(timer, due, callback). due \<le> t) (timers st1))"
  have mem: "(next_timer st, now st + 5000, RejectCall call CommandTimeout) \<in> set ?due"
    using assms(4) by (simp add: st1 call)
  have others: "\<forall>(timer, due, callback) \<in> set ?due.
      \<forall>e. callback = RejectCall call e \<longrightarrow> e = CommandTimeout"
    using assms(1) by (auto simp: st1 call registrations_wf_def)
  have l: "call < length (promises st1)"
    by (simp add: st1 call)
  have "promises (fold fire ?due st1) ! call = Some (Rejected CommandTimeout)"
    by (rule fold_fire_rejects [OF others mem l assms(3)])
  then have rejected: "promises (advance t st1) ! call = Some (Rejected CommandTimeout)"
    by (simp add: advance_def Let_def)
  have "(sequence st + 1, call, next_timer st) \<in> set (responders st1)"
    by (simp add: st1 call)
  then show ?thesis
    using rejected by (simp add: advance_fields)
qed

theorem timeout_rejects_and_leaks_witness:
  "registrations_wf example_device
   \<and> promises (snd (sendCommand (\<lambda>v. ''{}'') 10 [] example_device))
       ! fst (sendCommand (\<lambda>v. ''{}'') 10 [] example_device) = None
   \<and> now example_device + 5000 \<le> 5000
   \<and> fst (sendCommand (\<lambda>v. ''{}'') 10 [] example_device) = 0
   \<and> promises (advance 5000 (snd (sendCommand (\<lambda>v. ''{}'') 10 [] example_device)))
       ! fst (sendCommand (\<lambda>v. ''{}'') 10 [] example_device) = Some (Rejected CommandTimeout)
   \<and> (sequence example_device + 1, fst (sendCommand (\<lambda>v. ''{}'') 10 [] example_device),
       next_timer example_device)
      \<in> set (responders (advance 5000 (snd (sendCommand (\<lambda>v. ''{}'') 10 [] example_device))))"
proof -
  let ?S = "\<lambda>v :: json. ''{}''"
  let ?st1 = "snd (sendCommand ?S 10 [] example_device)"
  have e: "encryptCommand example_device (utf8 ''{}'')
      = Inr [0xcb, 0x70, 0xdd, 0xc2, 0x5a, 0x2a, 0x20, 0x45, 0xb4, 0xc1, 0x30, 0x84, 0x41, 0x8a, 0x9a, 0xbb]"
    by (simp add: encryptCommand_def version_def example_encrypt example_device_def on_connect_def
        TuyaDevice_def)
  have d: "connected example_device" "socket example_device" "sequence example_device = 0"
    "promises example_device = []" "now example_device = 0"
    by (simp_all add: example_device_def on_connect_def TuyaDevice_def)
  have w: "registrations_wf example_device"
    by (simp add: registrations_wf_def example_device_def on_connect_def TuyaDevice_def)
  note s1 = sendCommand_sent [of example_device ?S "[]" _ 10, OF d(1,2) e]
  have c1: "fst (sendCommand ?S 10 [] example_device) = 0" and p1: "promises ?st1 = [None]"
    using s1 by (simp_all add: d)
  have h2: "sendCommand ?S 10 [] example_device = (fst (sendCommand ?S 10 [] example_device), ?st1)"
    by simp
  have h3: "promises ?st1 ! fst (sendCommand ?S 10 [] example_device) = None"
    by (simp add: p1 c1)
  have h4: "now example_device + 5000 \<le> 5000"
    by (simp add: d)
  show ?thesis
    using w h3 h4 c1 timeout_rejects_and_leaks [OF w h2 h3 h4] by blast
qed

section \<open>Invariants of the timers\<close>

lemma timers_wf_iff:
  "timers_wf st \<longleftrightarrow>
     (\<forall>n call timeout. (n, call, timeout) \<in> set (responders st) \<longrightarrow> timeout < next_timer st)
     \<and> (\<forall>timer due callback. (timer, due, callback) \<in> set (timers st) \<longrightarrow>
           timer < next_timer st \<and> now st \<le> due)
     \<and> distinct (map fst (timers st))"
  unfolding timers_wf_def by (rule arg_cong2 [where f = "(\<and>)"]) auto

lemma timers_wf_transfer:
  assumes "timers_wf st"
    and "set (responders st') \<subseteq> set (responders st)"
    and "timers st' = filter P (timers st)"
    and "next_timer st' = next_timer st" and "now st' = now st"
  shows "timers_wf st'"
  using assms by (auto simp: timers_wf_def distinct_map_filter)

lemma clear_scheduled_transfer:
  assumes "clear_scheduled timer due st"
    and "set (motion_events st) \<subseteq> set (motion_events st')"
    and "set (responders st') \<subseteq> set (responders st)"
    and "(timer, due, EmitMotion False) \<in> set (timers st) \<Longrightarrow>
         \<forall>(n, call, timeout) \<in> set (responders st). timeout \<noteq> timer \<Longrightarrow>
         (timer, due, EmitMotion False) \<in> set (timers st')"
  shows "clear_scheduled timer due st'"
  using assms unfolding clear_scheduled_def by blast

lemma debug_invariants:
  "timers_wf (debug e st) = timers_wf st"
  "clear_scheduled timer due (debug e st) = clear_scheduled timer due st"
  by (simp_all add: timers_wf_def clear_scheduled_def debug_fields)

lemma new_promise_invariants:
  "timers_wf (snd (new_promise r st)) = timers_wf st"
  "clear_scheduled timer due (snd (new_promise r st)) = clear_scheduled timer due st"
  by (simp_all add: timers_wf_def clear_scheduled_def new_promise_fields)

lemma sequence_update_invariants:
  "timers_wf (st\<lparr>sequence := n\<rparr>) = timers_wf st"
  "clear_scheduled timer due (st\<lparr>sequence := n\<rparr>) = clear_scheduled timer due st"
  by (simp_all add: timers_wf_def clear_scheduled_def)

lemma emit_response_timers_wf: "timers_wf st \<Longrightarrow> timers_wf (emit_response sq payload st)"
  by (rule timers_wf_transfer [where P = "\<lambda>x. fst x \<notin> (snd \<circ> snd) ` {y \<in> set (responders st). fst y = sq}"])
     (auto simp: responders_emit_response timers_emit_response emit_response_fields)

lemma emit_response_clear_scheduled:
  "clear_scheduled timer due st \<Longrightarrow> clear_scheduled timer due (emit_response sq payload st)"
  by (rule clear_scheduled_transfer [where st = st])
     (auto simp: responders_emit_response timers_emit_response emit_response_fields)

text \<open>Arming a timeout keeps the invariant, whatever is emitted just before.\<close>

lemma setTimeout_timers_wf:
  "timers_wf st \<Longrightarrow> timers_wf (snd (setTimeout callback delay st))"
  by (auto simp: timers_wf_def setTimeout_fields)

lemma emit_motion_invariants:
  "timers_wf (emit_motion b st) = timers_wf st"
  "clear_scheduled timer due st \<Longrightarrow> clear_scheduled timer due (emit_motion b st)"
  by (auto simp: timers_wf_def clear_scheduled_def emit_motion_fields)

lemma setTimeout_clear_scheduled:
  "clear_scheduled timer due st \<Longrightarrow> clear_scheduled timer due (snd (setTimeout callback delay st))"
  by (auto simp: clear_scheduled_def setTimeout_fields)

lemma handlePayload_timers_wf:
  "timers_wf st \<Longrightarrow> timers_wf (fst (handlePayload command sq payload st))"
  by (simp add: handlePayload_state setTimeout_timers_wf emit_motion_invariants
      emit_response_timers_wf debug_invariants)

lemma handlePayload_clear_scheduled:
  "clear_scheduled timer due st \<Longrightarrow>
     clear_scheduled timer due (fst (handlePayload command sq payload st))"
  by (simp add: handlePayload_state setTimeout_clear_scheduled emit_motion_invariants
      emit_response_clear_scheduled debug_invariants)

lemma handleFrame_cases:
  "handleFrame JSON_parse command sq encrypted st = st
   \<or> (\<exists>e. handleFrame JSON_parse command sq encrypted st = debug e st)
   \<or> (\<exists>p. handleFrame JSON_parse command sq encrypted st = fst (handlePayload command sq p st))
   \<or> (\<exists>p e. handleFrame JSON_parse command sq encrypted st
              = debug e (fst (handlePayload command sq p st)))"
proof (cases "decryptFrame st encrypted")
  case (Inl e)
  then show ?thesis by (auto simp: handleFrame_def)
next
  case (Inr decrypted)
  let ?s = "filter (\<lambda>c. c \<noteq> CHR 0x00) (buffer_toString decrypted)"
  show ?thesis
  proof (cases "?s = [] \<or> JSON_parse ?s = None")
    case True
    then show ?thesis
      using Inr by (auto simp: handleFrame_def Let_def)
  next
    case False
    then obtain p where p: "JSON_parse ?s = Some p" and n: "?s \<noteq> []"
      by auto
    obtain st' r where h: "handlePayload command sq p st = (st', r)"
      by (cases "handlePayload command sq p st")
    then have f: "st' = fst (handlePayload command sq p st)"
      by simp
    show ?thesis
    proof (cases r)
      case None
      then have "handleFrame JSON_parse command sq encrypted st = fst (handlePayload command sq p st)"
        using Inr p n h by (simp add: handleFrame_def Let_def)
      then show ?thesis by blast
    next
      case (Some e)
      then have "handleFrame JSON_parse command sq encrypted st
          = debug FailedToParse (fst (handlePayload command sq p st))"
        using Inr p n h by (simp add: handleFrame_def Let_def)
      then show ?thesis by blast
    qed
  qed
qed

lemma handleFrame_invariants:
  "timers_wf st \<Longrightarrow> timers_wf (handleFrame JSON_parse command sq encrypted st)"
  "clear_scheduled timer due st \<Longrightarrow>
     clear_scheduled timer due (handleFrame JSON_parse command sq encrypted st)"
  using handleFrame_cases [of JSON_parse command sq encrypted st]
  by (auto simp: debug_invariants handlePayload_timers_wf handlePayload_clear_scheduled)

lemma handleData_cases:
  "handleData JSON_parse data st = Inr st
   \<or> (\<exists>command sq encrypted.
         handleData JSON_parse data st = Inr (handleFrame JSON_parse command sq encrypted st))"
proof -
  have "readFrame data = Inr None \<or> (\<exists>f. readFrame data = Inr (Some f))"
    by (auto simp: readFrame_def readUInt32BE_def)
  then show ?thesis
  proof
    assume "readFrame data = Inr None"
    then show ?thesis by (simp add: handleData_def)
  next
    assume "\<exists>f. readFrame data = Inr (Some f)"
    then obtain command sq encrypted where "readFrame data = Inr (Some (command, sq, encrypted))"
      by (metis prod_cases3)
    then have "handleData JSON_parse data st = Inr (handleFrame JSON_parse command sq encrypted st)"
      by (simp add: handleData_def)
    then show ?thesis by blast
  qed
qed

lemma handleData_invariants:
  assumes "handleData JSON_parse data st = Inr st'"
  shows "timers_wf st \<Longrightarrow> timers_wf st'"
    and "clear_scheduled timer due st \<Longrightarrow> clear_scheduled timer due st'"
  using handleData_cases [of JSON_parse data st] assms
  by (auto simp: handleFrame_invariants)

lemma sendCommand_effect:
  "((timers (snd (sendCommand S c p st)) = timers st
     \<and> next_timer (snd (sendCommand S c p st)) = next_timer st
     \<and> responders (snd (sendCommand S c p st)) = responders st)
    \<or> (timers (snd (sendCommand S c p st))
          = timers st @ [(next_timer st, now st + 5000,
                          RejectCall (length (promises st)) CommandTimeout)]
        \<and> next_timer (snd (sendCommand S c p st)) = next_timer st + 1
        \<and> responders (snd (sendCommand S c p st))
          = responders st @ [(sequence st + 1, length (promises st), next_timer st)]))
   \<and> now (snd (sendCommand S c p st)) = now st
   \<and> motion_events (snd (sendCommand S c p st)) = motion_events st"
  using sendCommand_cases [of S c p st]
  by (elim disjE exE conjE; simp add: new_promise_def)

lemma sendCommand_timers_wf:
  assumes "timers_wf st"
  shows "timers_wf (snd (sendCommand S c p st))"
  using sendCommand_effect [of S c p st] assms
  unfolding timers_wf_iff by (elim conjE disjE; simp) (fastforce simp: less_Suc_eq)


section \<open>The passing of time\<close>

lemma fold_fire_timers:
  "timers (fold fire xs st) = filter (\<lambda>y. fst y \<notin> fst ` set xs) (timers st)"
proof (induction xs arbitrary: st)
  case Nil
  then show ?case by simp
next
  case (Cons x xs)
  show ?case
    by (auto simp: Cons.IH fire_fields intro!: filter_cong)
qed



lemma now_fold_fire:
  "\<forall>x \<in> set xs. fst (snd x) \<le> t \<Longrightarrow> now (fold fire xs st) \<le> max (now st) t"
proof (induction xs arbitrary: st)
  case Nil
  then show ?case by simp
next
  case (Cons x xs)
  have "now (fold fire xs (fire x st)) \<le> max (now (fire x st)) t"
    using Cons.prems by (intro Cons.IH) simp
  moreover have "max (now (fire x st)) t = max (now st) t"
    using Cons.prems by (simp add: fire_fields max_def)
  ultimately show ?case
    by simp
qed

lemma now_fold_fire_ge: "now st \<le> now (fold fire xs st)"
proof (induction xs arbitrary: st)
  case Nil
  then show ?case by simp
next
  case (Cons x xs)
  have "now (fire x st) \<le> now (fold fire xs (fire x st))"
    by (rule Cons.IH)
  then show ?case
    by (simp add: fire_fields)
qed


lemma advance_due_list:
  "set (sort_key (\<lambda>(timer, due, callback). due)
          (filter (\<lambda>(timer, due, callback). due \<le> t) (timers st)))
     = {x \<in> set (timers st). fst (snd x) \<le> t}"
  "sorted (map (\<lambda>x. fst (snd x))
     (sort_key (\<lambda>(timer, due, callback). due)
        (filter (\<lambda>(timer, due, callback). due \<le> t) (timers st))))"
proof -
  have e: "(\<lambda>(timer, due, callback). due) = (\<lambda>x :: nat \<times> nat \<times> action. fst (snd x))"
    by (simp add: fun_eq_iff)
  show "set (sort_key (\<lambda>(timer, due, callback). due)
          (filter (\<lambda>(timer, due, callback). due \<le> t) (timers st)))
     = {x \<in> set (timers st). fst (snd x) \<le> t}"
    by (auto simp: case_prod_unfold)
  show "sorted (map (\<lambda>x. fst (snd x))
     (sort_key (\<lambda>(timer, due, callback). due)
        (filter (\<lambda>(timer, due, callback). due \<le> t) (timers st))))"
    unfolding e by (rule sorted_sort_key)
qed

lemma distinct_fst_eq:
  "distinct (map fst xs) \<Longrightarrow> x \<in> set xs \<Longrightarrow> y \<in> set xs \<Longrightarrow> fst x = fst y \<Longrightarrow> x = y"
  by (metis eq_key_imp_eq_value prod.collapse)

lemma timers_wf_timer:
  "timers_wf st \<Longrightarrow> x \<in> set (timers st) \<Longrightarrow> fst x < next_timer st \<and> now st \<le> fst (snd x)"
  by (cases x) (simp add: timers_wf_iff, blast)

lemma timers_wf_responder:
  "timers_wf st \<Longrightarrow> x \<in> set (responders st) \<Longrightarrow> snd (snd x) < next_timer st"
  by (cases x) (simp add: timers_wf_iff)

lemma timers_advance:
  assumes "distinct (map fst (timers st))"
  shows "timers (advance t st) = filter (\<lambda>x. t < fst (snd x)) (timers st)"
proof -
  have "fst y \<notin> fst ` {x \<in> set (timers st). fst (snd x) \<le> t} \<longleftrightarrow> t < fst (snd y)"
    if y: "y \<in> set (timers st)" for y
  proof
    assume n: "fst y \<notin> fst ` {x \<in> set (timers st). fst (snd x) \<le> t}"
    show "t < fst (snd y)"
    proof (rule ccontr)
      assume "\<not> t < fst (snd y)"
      then have "y \<in> {x \<in> set (timers st). fst (snd x) \<le> t}"
        using y by simp
      then have "fst y \<in> fst ` {x \<in> set (timers st). fst (snd x) \<le> t}"
        by (rule imageI)
      with n show False by simp
    qed
  next
    assume l: "t < fst (snd y)"
    show "fst y \<notin> fst ` {x \<in> set (timers st). fst (snd x) \<le> t}"
    proof
      assume "fst y \<in> fst ` {x \<in> set (timers st). fst (snd x) \<le> t}"
      then obtain x where x: "x \<in> set (timers st)" "fst (snd x) \<le> t" "fst y = fst x"
        by auto
      then have "x = y"
        using distinct_fst_eq [OF assms x(1) y] by simp
      then show False
        using x(2) l by simp
    qed
  qed
  then show ?thesis
    by (simp add: advance_def Let_def fold_fire_timers case_prod_unfold cong: filter_cong)
qed

lemma advance_now: "now (advance t st) = max (now st) t" if "timers_wf st"
proof -
  let ?due = "sort_key (\<lambda>(timer, due, callback). due)
                (filter (\<lambda>(timer, due, callback). due \<le> t) (timers st))"
  have "now (fold fire ?due st) \<le> max (now st) t"
    by (rule now_fold_fire) (simp add: advance_due_list)
  moreover have "now st \<le> now (fold fire ?due st)"
    by (rule now_fold_fire_ge)
  ultimately show ?thesis
    by (simp add: advance_def Let_def)
qed

lemma advance_timers_wf:
  assumes "timers_wf st"
  shows "timers_wf (advance t st)"
proof -
  have d: "distinct (map fst (timers st))"
    using assms by (simp add: timers_wf_iff)
  have "timeout < next_timer (advance t st)"
    if "(n, call, timeout) \<in> set (responders (advance t st))" for n call timeout
    using timers_wf_responder [OF assms, of "(n, call, timeout)"] that
    by (simp add: advance_fields)
  moreover have "timer < next_timer (advance t st) \<and> now (advance t st) \<le> due"
    if "(timer, due, callback) \<in> set (timers (advance t st))" for timer due callback
    using timers_wf_timer [OF assms, of "(timer, due, callback)"] that
    by (simp add: advance_fields advance_now [OF assms] timers_advance [OF d])
  moreover have "distinct (map fst (timers (advance t st)))"
    using d by (simp add: timers_advance [OF d] distinct_map_filter)
  ultimately show ?thesis
    unfolding timers_wf_iff [of "advance t st"] by blast
qed



section \<open>The motion event and its clear\<close>










section \<open>Responses on arrival\<close>

lemma buildPacket_length_field:
  assumes "buildPacket c payload st = (Inr packet, st')"
  shows "readUInt32BE packet 12 = Inr (length payload + 8)"
proof -
  from assms have s: "length payload + 8 < 2 ^ 32"
    by (auto simp: buildPacket_def Let_def writeUInt32BE_def split: sum.splits if_splits)
  from assms obtain cmd sq where
    "packet = (magic_header @ cmd @ sq) @ u32be (of_nat (length payload + 8))
              @ (payload @ calculateCRC (magic_header @ cmd @ sq
                                         @ u32be (of_nat (length payload + 8)) @ payload)
                 @ magic_footer)"
    and "length cmd = 4" and "length sq = 4"
    by (auto simp: buildPacket_def Let_def writeUInt32BE_def length_u32be
        split: sum.splits if_splits)
  then show ?thesis
    using readUInt32BE_u32be [of "magic_header @ cmd @ sq" "of_nat (length payload + 8)"]
      unat_of_nat_32 [OF s]
    by (simp add: magic_header_def)
qed

lemma readFrame_sequence:
  "readFrame data = Inr (Some (k, sq, e)) \<Longrightarrow> readUInt32BE data 12 = Inr sq"
  by (auto simp: readFrame_def split: if_splits sum.splits)

text \<open>What \<open>handlePayload\<close> leaves alone when it is given the sequence \<open>sq\<close>: the promises of
  the calls not registered under \<open>sq\<close>, and the timers that no listener under \<open>sq\<close>
  holds.\<close>

lemma handlePayload_effect:
  "set (responders (fst (handlePayload k sq p st))) \<subseteq> set (responders st)"
  "x \<in> set (timers st) \<Longrightarrow>
     \<forall>(n, call, timeout) \<in> set (responders st). n = sq \<longrightarrow> timeout \<noteq> fst x \<Longrightarrow>
     x \<in> set (timers (fst (handlePayload k sq p st)))"
  "x \<in> set (timers (fst (handlePayload k sq p st))) \<Longrightarrow>
     x \<in> set (timers st) \<or> snd (snd x) = EmitMotion False"
  "now (fst (handlePayload k sq p st)) = now st"
    apply (simp add: handlePayload_responders)
   apply (fastforce simp: handlePayload_state setTimeout_fields emit_motion_fields
      timers_emit_response debug_fields)
   apply (auto simp: handlePayload_state setTimeout_fields emit_motion_fields
      timers_emit_response emit_response_fields debug_fields split: if_splits)
  done

lemma handleFrame_effect:
  "length (promises (handleFrame P k sq e st)) = length (promises st)"
  "c < length (promises st) \<Longrightarrow> \<not> (\<exists>timeout. (sq, c, timeout) \<in> set (responders st)) \<Longrightarrow>
     promises (handleFrame P k sq e st) ! c = promises st ! c"
  "set (responders (handleFrame P k sq e st)) \<subseteq> set (responders st)"
  "x \<in> set (timers st) \<Longrightarrow>
     \<forall>(n, call, timeout) \<in> set (responders st). n = sq \<longrightarrow> timeout \<noteq> fst x \<Longrightarrow>
     x \<in> set (timers (handleFrame P k sq e st))"
  "x \<in> set (timers (handleFrame P k sq e st)) \<Longrightarrow>
     x \<in> set (timers st) \<or> snd (snd x) = EmitMotion False"
  "now (handleFrame P k sq e st) = now st"
proof -
  note hc = handleFrame_cases [of P k sq e st]
  show "length (promises (handleFrame P k sq e st)) = length (promises st)"
    using hc by (auto simp: debug_fields handlePayload_length_promises)
  show "promises (handleFrame P k sq e st) ! c = promises st ! c"
    if "c < length (promises st)" "\<not> (\<exists>timeout. (sq, c, timeout) \<in> set (responders st))"
    using hc that by (auto simp: debug_fields handlePayload_promises)
  show "set (responders (handleFrame P k sq e st)) \<subseteq> set (responders st)"
    using hc handlePayload_effect(1) [where k = k and sq = sq and st = st]
    by (elim disjE exE) (simp_all add: debug_fields)
  show "x \<in> set (timers (handleFrame P k sq e st))"
    if "x \<in> set (timers st)"
      "\<forall>(n, call, timeout) \<in> set (responders st). n = sq \<longrightarrow> timeout \<noteq> fst x"
    using hc handlePayload_effect(2) [OF that, where k = k]
    by (elim disjE exE) (simp_all add: debug_fields that)
  show "x \<in> set (timers st) \<or> snd (snd x) = EmitMotion False"
    if "x \<in> set (timers (handleFrame P k sq e st))"
    using hc that handlePayload_effect(3) [where x = x and k = k and sq = sq and st = st]
    by (elim disjE exE) (simp_all add: debug_fields)
  show "now (handleFrame P k sq e st) = now st"
    using hc by (auto simp: debug_fields handlePayload_effect(4))
qed

text \<open>The same for a chunk: the sequence that counts is the word at offset 12.\<close>

lemma handleData_effect:
  assumes "readUInt32BE data 12 = Inr l"
  shows "\<exists>st'. handleData P data st = Inr st'
    \<and> length (promises st') = length (promises st)
    \<and> (\<forall>c. c < length (promises st) \<longrightarrow> \<not> (\<exists>timeout. (l, c, timeout) \<in> set (responders st))
          \<longrightarrow> promises st' ! c = promises st ! c)
    \<and> set (responders st') \<subseteq> set (responders st)
    \<and> (\<forall>x \<in> set (timers st).
          (\<forall>(n, call, timeout) \<in> set (responders st). n = l \<longrightarrow> timeout \<noteq> fst x)
          \<longrightarrow> x \<in> set (timers st'))
    \<and> (\<forall>x \<in> set (timers st'). x \<in> set (timers st) \<or> snd (snd x) = EmitMotion False)
    \<and> now st' = now st"
proof -
  have "readFrame data = Inr None \<or> (\<exists>k e. readFrame data = Inr (Some (k, l, e)))"
    using assms by (auto simp: readFrame_def readUInt32BE_def split: if_splits)
  then show ?thesis
  proof
    assume "readFrame data = Inr None"
    then have "handleData P data st = Inr st"
      by (simp add: handleData_def)
    then show ?thesis by simp
  next
    assume "\<exists>k e. readFrame data = Inr (Some (k, l, e))"
    then obtain k e where "readFrame data = Inr (Some (k, l, e))"
      by blast
    then have h: "handleData P data st = Inr (handleFrame P k l e st)"
      by (simp add: handleData_def)
    show ?thesis
      unfolding h using handleFrame_effect [where P = P and k = k and sq = l and e = e and st = st]
      by (intro exI [of _ "handleFrame P k l e st"] conjI refl allI impI ballI) blast+
  qed
qed

text \<open>A pending call stays pending, with its timeout armed, when a chunk arrives whose word at
  offset 12 is not the sequence the call is registered under.\<close>

lemma handleData_keeps_pending:
  assumes "readUInt32BE data 12 = Inr l"
    and "c < length (promises st)" and "promises st ! c = None"
    and "(timer, due, RejectCall c CommandTimeout) \<in> set (timers st)"
    and "\<forall>(n, call, timeout) \<in> set (responders st). n = l \<longrightarrow> call \<noteq> c \<and> timeout \<noteq> timer"
    and "\<forall>(timer', due', callback) \<in> set (timers st).
           \<forall>e. callback = RejectCall c e \<longrightarrow> e = CommandTimeout"
  shows "\<exists>st'. handleData P data st = Inr st'
    \<and> c < length (promises st') \<and> promises st' ! c = None
    \<and> (timer, due, RejectCall c CommandTimeout) \<in> set (timers st')
    \<and> (\<forall>(timer', due', callback) \<in> set (timers st').
          \<forall>e. callback = RejectCall c e \<longrightarrow> e = CommandTimeout)
    \<and> set (responders st') \<subseteq> set (responders st)
    \<and> now st' = now st"
proof -
  obtain st' where h: "handleData P data st = Inr st'"
    and len: "length (promises st') = length (promises st)"
    and prom: "\<forall>c. c < length (promises st) \<longrightarrow> \<not> (\<exists>timeout. (l, c, timeout) \<in> set (responders st))
          \<longrightarrow> promises st' ! c = promises st ! c"
    and resp: "set (responders st') \<subseteq> set (responders st)"
    and keep: "\<forall>x \<in> set (timers st).
          (\<forall>(n, call, timeout) \<in> set (responders st). n = l \<longrightarrow> timeout \<noteq> fst x)
          \<longrightarrow> x \<in> set (timers st')"
    and new: "\<forall>x \<in> set (timers st'). x \<in> set (timers st) \<or> snd (snd x) = EmitMotion False"
    and now: "now st' = now st"
    using handleData_effect [OF assms(1), of P st] by blast
  have a: "c < length (promises st')"
    using len assms(2) by simp
  have "\<not> (\<exists>timeout. (l, c, timeout) \<in> set (responders st))"
    using assms(5) by blast
  then have b: "promises st' ! c = None"
    using prom assms(2,3) by simp
  have "\<forall>(n, call, timeout) \<in> set (responders st).
      n = l \<longrightarrow> timeout \<noteq> fst (timer, due, RejectCall c CommandTimeout)"
    using assms(5) by auto
  then have d: "(timer, due, RejectCall c CommandTimeout) \<in> set (timers st')"
    using keep assms(4) by blast
  have e: "\<forall>(timer', due', callback) \<in> set (timers st').
      \<forall>e. callback = RejectCall c e \<longrightarrow> e = CommandTimeout"
    using new assms(6) by fastforce
  show ?thesis
    using h a b d e resp now by blast
qed

lemma advance_rejects:
  assumes "c < length (promises st)" and "promises st ! c = None"
    and "(timer, due, RejectCall c CommandTimeout) \<in> set (timers st)"
    and "\<forall>(timer', due', callback) \<in> set (timers st).
           \<forall>e. callback = RejectCall c e \<longrightarrow> e = CommandTimeout"
    and "due \<le> t"
  shows "promises (advance t st) ! c = Some (Rejected CommandTimeout)"
proof -
  let ?due = "sort_key (\<lambda>(timer, due, callback). due)
                (filter (\<lambda>(timer, due, callback). due \<le> t) (timers st))"
  have mem: "(timer, due, RejectCall c CommandTimeout) \<in> set ?due"
    using assms(3,5) by simp
  have others: "\<forall>(timer, due, callback) \<in> set ?due.
      \<forall>e. callback = RejectCall c e \<longrightarrow> e = CommandTimeout"
    using assms(4) by auto
  have "promises (fold fire ?due st) ! c = Some (Rejected CommandTimeout)"
    by (rule fold_fire_rejects [OF others mem assms(1,2)])
  then show ?thesis
    by (simp add: advance_def Let_def)
qed

text \<open>Claim C3 fails on the code.  Two commands sent back to back do get the sequence numbers
  \<open>N\<close> and \<open>N + 1\<close>, where \<open>N\<close> is the counter plus one, and their frames carry them in the
  sequence field, at offset 8.  But \<open>handleData\<close> takes the sequence of an arriving frame from
  offset 12, where \<open>buildPacket\<close> writes the length.  So when the responses are the frames
  that \<open>buildPacket\<close> builds for the sequence numbers \<open>N + 1\<close> and \<open>N\<close>, with any command and
  any payload whose length plus 8 is not one of the two numbers, and they arrive in this order,
  neither call is resolved: both promises are still pending afterwards, and 5000 ms after the
  calls both are rejected as timed out.\<close>

theorem responses_lost_on_arrival:
  assumes "registrations_wf st" and "timers_wf st"
    and "sendCommand S c1 p1 st = (call1, st1)" and "promises st1 ! call1 = None"
    and "sendCommand S c2 p2 st1 = (call2, st2)" and "promises st2 ! call2 = None"
    and "buildPacket k1 e1 st = (Inr resp1, sa)"
    and "buildPacket k2 e2 st1 = (Inr resp2, sb)"
    and "length e1 + 8 \<notin> {sequence st + 1, sequence st + 2}"
    and "length e2 + 8 \<notin> {sequence st + 1, sequence st + 2}"
    and "now st + 5000 \<le> t"
  shows "sequence st1 = sequence st + 1 \<and> sequence st2 = sequence st + 2
    \<and> (\<exists>packet1 packet2.
          written st2 = written st @ [packet1, packet2]
          \<and> readUInt32BE packet1 8 = Inr (sequence st + 1)
          \<and> readUInt32BE packet2 8 = Inr (sequence st + 2))
    \<and> readUInt32BE resp1 8 = Inr (sequence st + 1)
    \<and> readUInt32BE resp2 8 = Inr (sequence st + 2)
    \<and> (\<exists>st3 st4.
          handleData P resp2 st2 = Inr st3 \<and> handleData P resp1 st3 = Inr st4
          \<and> promises st4 ! call1 = None \<and> promises st4 ! call2 = None
          \<and> promises (advance t st4) ! call1 = Some (Rejected CommandTimeout)
          \<and> promises (advance t st4) ! call2 = Some (Rejected CommandTimeout))"
proof -
  define N where "N = sequence st + 1"
  obtain packet1 where b1: "buildPacket c1 (projr (encryptCommand st (utf8 (S (command_data st p1))))) st
      = (Inr packet1, st\<lparr>sequence := sequence st + 1\<rparr>)"
    and call1: "call1 = length (promises st)"
    and st1: "st1 = st\<lparr>sequence := sequence st + 1,
                       promises := promises st @ [None],
                       timers := timers st @ [(next_timer st, now st + 5000,
                                               RejectCall (length (promises st)) CommandTimeout)],
                       next_timer := next_timer st + 1,
                       responders := responders st
                                     @ [(sequence st + 1, length (promises st), next_timer st)],
                       written := written st @ [packet1]\<rparr>"
    using sendCommand_pending [OF assms(3,4)] by blast
  obtain packet2 where b2: "buildPacket c2 (projr (encryptCommand st1 (utf8 (S (command_data st1 p2))))) st1
      = (Inr packet2, st1\<lparr>sequence := sequence st1 + 1\<rparr>)"
    and call2: "call2 = length (promises st1)"
    and st2: "st2 = st1\<lparr>sequence := sequence st1 + 1,
                       promises := promises st1 @ [None],
                       timers := timers st1 @ [(next_timer st1, now st1 + 5000,
                                               RejectCall (length (promises st1)) CommandTimeout)],
                       next_timer := next_timer st1 + 1,
                       responders := responders st1
                                     @ [(sequence st1 + 1, length (promises st1), next_timer st1)],
                       written := written st1 @ [packet2]\<rparr>"
    using sendCommand_pending [OF assms(5,6)] by blast
  have sq1: "sequence st1 = N" and sq2: "sequence st2 = N + 1"
    by (simp_all add: st1 st2 N_def)
  have c2: "call2 = call1 + 1"
    by (simp add: call1 call2 st1)
  have resp: "responders st2
      = responders st @ [(N, call1, next_timer st), (N + 1, call2, next_timer st + 1)]"
    by (simp add: st1 st2 N_def call1 call2)
  have tim: "timers st2
      = timers st @ [(next_timer st, now st + 5000, RejectCall call1 CommandTimeout),
                     (next_timer st + 1, now st + 5000, RejectCall call2 CommandTimeout)]"
    by (simp add: st1 st2 call1 call2)
  have prom: "promises st2 = promises st @ [None, None]"
    by (simp add: st1 st2)
  have now2: "now st2 = now st"
    by (simp add: st1 st2)
  have old_r: "call < call1 \<and> timeout < next_timer st"
    if "(n, call, timeout) \<in> set (responders st)" for n call timeout
    using assms(1,2) that by (auto simp: registrations_wf_def timers_wf_def call1)
  have old_t: "call < call1"
    if "(timer, due, RejectCall call e) \<in> set (timers st)" for timer due call e
    using assms(1) that by (auto simp: registrations_wf_def call1)
  have w: "written st2 = written st @ [packet1, packet2]"
    by (simp add: st1 st2)
  have f1: "readUInt32BE packet1 8 = Inr (sequence st + 1)"
    by (rule buildPacket_sequence_field [OF b1])
  have f2: "readUInt32BE packet2 8 = Inr (sequence st + 2)"
    using buildPacket_sequence_field [OF b2] by (simp add: st1)
  have g1: "readUInt32BE resp1 8 = Inr (sequence st + 1)"
    by (rule buildPacket_sequence_field [OF assms(7)])
  have g2: "readUInt32BE resp2 8 = Inr (sequence st + 2)"
    using buildPacket_sequence_field [OF assms(8)] by (simp add: st1)
  have m1: "readUInt32BE resp1 12 = Inr (length e1 + 8)"
    by (rule buildPacket_length_field [OF assms(7)])
  have m2: "readUInt32BE resp2 12 = Inr (length e2 + 8)"
    by (rule buildPacket_length_field [OF assms(8)])
  have l2: "call1 < length (promises st2)" "call2 < length (promises st2)"
    by (simp_all add: prom call1 c2)
  have n2: "promises st2 ! call1 = None" "promises st2 ! call2 = None"
    by (simp_all add: prom call1 c2 nth_append)
  have t2: "(next_timer st, now st + 5000, RejectCall call1 CommandTimeout) \<in> set (timers st2)"
    "(next_timer st + 1, now st + 5000, RejectCall call2 CommandTimeout) \<in> set (timers st2)"
    by (simp_all add: tim)
  have o2: "\<forall>(timer', due', callback) \<in> set (timers st2).
      \<forall>e. callback = RejectCall call1 e \<longrightarrow> e = CommandTimeout"
    "\<forall>(timer', due', callback) \<in> set (timers st2).
      \<forall>e. callback = RejectCall call2 e \<longrightarrow> e = CommandTimeout"
    using old_t by (fastforce simp: tim c2)+
  have away: "call \<noteq> call1 \<and> timeout \<noteq> next_timer st
      \<and> call \<noteq> call2 \<and> timeout \<noteq> next_timer st + 1"
    if "(n, call, timeout) \<in> set (responders st2)" "n = length e1 + 8 \<or> n = length e2 + 8"
    for n call timeout
    using that assms(9,10) old_r [of n call timeout] by (auto simp: resp N_def c2)
  have r21: "\<forall>(n, call, timeout) \<in> set (responders st2).
      n = length e2 + 8 \<longrightarrow> call \<noteq> call1 \<and> timeout \<noteq> next_timer st"
    and r22: "\<forall>(n, call, timeout) \<in> set (responders st2).
      n = length e2 + 8 \<longrightarrow> call \<noteq> call2 \<and> timeout \<noteq> next_timer st + 1"
    using away by blast+
  obtain st3 where h3: "handleData P resp2 st2 = Inr st3"
    and l31: "call1 < length (promises st3)" and n31: "promises st3 ! call1 = None"
    and t31: "(next_timer st, now st + 5000, RejectCall call1 CommandTimeout) \<in> set (timers st3)"
    and o31: "\<forall>(timer', due', callback) \<in> set (timers st3).
      \<forall>e. callback = RejectCall call1 e \<longrightarrow> e = CommandTimeout"
    and sub3: "set (responders st3) \<subseteq> set (responders st2)"
    using handleData_keeps_pending [OF m2 l2(1) n2(1) t2(1) r21 o2(1), of P] by blast
  obtain st3' where h3': "handleData P resp2 st2 = Inr st3'"
    and l32': "call2 < length (promises st3')" and n32': "promises st3' ! call2 = None"
    and t32': "(next_timer st + 1, now st + 5000, RejectCall call2 CommandTimeout) \<in> set (timers st3')"
    and o32': "\<forall>(timer', due', callback) \<in> set (timers st3').
      \<forall>e. callback = RejectCall call2 e \<longrightarrow> e = CommandTimeout"
    using handleData_keeps_pending [OF m2 l2(2) n2(2) t2(2) r22 o2(2), of P] by blast
  have "st3' = st3"
    using h3 h3' by simp
  note l32 = l32' [unfolded this] and n32 = n32' [unfolded this] and t32 = t32' [unfolded this]
    and o32 = o32' [unfolded this]
  have r31: "\<forall>(n, call, timeout) \<in> set (responders st3).
      n = length e1 + 8 \<longrightarrow> call \<noteq> call1 \<and> timeout \<noteq> next_timer st"
    and r32: "\<forall>(n, call, timeout) \<in> set (responders st3).
      n = length e1 + 8 \<longrightarrow> call \<noteq> call2 \<and> timeout \<noteq> next_timer st + 1"
    using away sub3 by blast+
  obtain st4 where h4: "handleData P resp1 st3 = Inr st4"
    and l41: "call1 < length (promises st4)" and n41: "promises st4 ! call1 = None"
    and t41: "(next_timer st, now st + 5000, RejectCall call1 CommandTimeout) \<in> set (timers st4)"
    and o41: "\<forall>(timer', due', callback) \<in> set (timers st4).
      \<forall>e. callback = RejectCall call1 e \<longrightarrow> e = CommandTimeout"
    using handleData_keeps_pending [OF m1 l31 n31 t31 r31 o31, of P] by blast
  obtain st4' where h4': "handleData P resp1 st3 = Inr st4'"
    and l42': "call2 < length (promises st4')" and n42': "promises st4' ! call2 = None"
    and t42': "(next_timer st + 1, now st + 5000, RejectCall call2 CommandTimeout) \<in> set (timers st4')"
    and o42': "\<forall>(timer', due', callback) \<in> set (timers st4').
      \<forall>e. callback = RejectCall call2 e \<longrightarrow> e = CommandTimeout"
    using handleData_keeps_pending [OF m1 l32 n32 t32 r32 o32, of P] by blast
  have "st4' = st4"
    using h4 h4' by simp
  note l42 = l42' [unfolded this] and n42 = n42' [unfolded this] and t42 = t42' [unfolded this]
    and o42 = o42' [unfolded this]
  have a1: "promises (advance t st4) ! call1 = Some (Rejected CommandTimeout)"
    by (rule advance_rejects [OF l41 n41 t41 o41 assms(11)])
  have a2: "promises (advance t st4) ! call2 = Some (Rejected CommandTimeout)"
    by (rule advance_rejects [OF l42 n42 t42 o42 assms(11)])
  have e: "\<exists>st3 st4.
          handleData P resp2 st2 = Inr st3 \<and> handleData P resp1 st3 = Inr st4
          \<and> promises st4 ! call1 = None \<and> promises st4 ! call2 = None
          \<and> promises (advance t st4) ! call1 = Some (Rejected CommandTimeout)
          \<and> promises (advance t st4) ! call2 = Some (Rejected CommandTimeout)"
    using h3 h4 n41 n42 a1 a2 by blast
  have p: "\<exists>packet1 packet2.
          written st2 = written st @ [packet1, packet2]
          \<and> readUInt32BE packet1 8 = Inr (sequence st + 1)
          \<and> readUInt32BE packet2 8 = Inr (sequence st + 2)"
    using w f1 f2 by blast
  have q: "sequence st1 = sequence st + 1" "sequence st2 = sequence st + 2"
    using sq1 sq2 by (simp_all add: N_def)
  show ?thesis
    by (intro conjI q p g1 g2 e)
qed

text \<open>The two responses of the instance below: the frames that \<open>buildPacket\<close> builds for
  command 10, the sequence numbers 1 and 2 and the encryption of \<open>{}\<close> under the key of the
  example device.  \<open>handleData\<close> takes the first four bytes of the payload for the length
  and drops both as incomplete.\<close>

lemma crc_shifts_8:
  "crc_shifts 8 x
   = crc_shift (crc_shift (crc_shift (crc_shift (crc_shift (crc_shift (crc_shift (crc_shift x)))))))"
  by (simp add: eval_nat_numeral)

lemma example_response_crc:
  "calculateCRC [0x00, 0x00, 0x55, 0xaa, 0, 0, 0, 10, 0, 0, 0, 1, 0, 0, 0, 0x18,
      0xcb, 0x70, 0xdd, 0xc2, 0x5a, 0x2a, 0x20, 0x45, 0xb4, 0xc1, 0x30, 0x84, 0x41, 0x8a, 0x9a, 0xbb]
   = [0x74, 0xa4, 0x6d, 0x3b]"
  "calculateCRC [0x00, 0x00, 0x55, 0xaa, 0, 0, 0, 10, 0, 0, 0, 2, 0, 0, 0, 0x18,
      0xcb, 0x70, 0xdd, 0xc2, 0x5a, 0x2a, 0x20, 0x45, 0xb4, 0xc1, 0x30, 0x84, 0x41, 0x8a, 0x9a, 0xbb]
   = [0x0f, 0xba, 0xef, 0xd8]"
  by (simp_all add: calculateCRC_def crc_byte_def crc_shifts_8 crc_shift_def u32be_def)

lemma example_responses:
  "sequence st = 0 \<Longrightarrow>
     buildPacket 10 [0xcb, 0x70, 0xdd, 0xc2, 0x5a, 0x2a, 0x20, 0x45, 0xb4, 0xc1, 0x30, 0x84, 0x41, 0x8a, 0x9a, 0xbb] st
     = (Inr [0x00, 0x00, 0x55, 0xaa, 0, 0, 0, 10, 0, 0, 0, 1, 0, 0, 0, 0x18,
      0xcb, 0x70, 0xdd, 0xc2, 0x5a, 0x2a, 0x20, 0x45, 0xb4, 0xc1, 0x30, 0x84, 0x41, 0x8a, 0x9a, 0xbb,
      0x74, 0xa4, 0x6d, 0x3b, 0x00, 0x00, 0xaa, 0x55],
        st\<lparr>sequence := 1\<rparr>)"
  "sequence st = 1 \<Longrightarrow>
     buildPacket 10 [0xcb, 0x70, 0xdd, 0xc2, 0x5a, 0x2a, 0x20, 0x45, 0xb4, 0xc1, 0x30, 0x84, 0x41, 0x8a, 0x9a, 0xbb] st
     = (Inr [0x00, 0x00, 0x55, 0xaa, 0, 0, 0, 10, 0, 0, 0, 2, 0, 0, 0, 0x18,
      0xcb, 0x70, 0xdd, 0xc2, 0x5a, 0x2a, 0x20, 0x45, 0xb4, 0xc1, 0x30, 0x84, 0x41, 0x8a, 0x9a, 0xbb,
      0x0f, 0xba, 0xef, 0xd8, 0x00, 0x00, 0xaa, 0x55],
        st\<lparr>sequence := 2\<rparr>)"
  by (simp_all add: buildPacket_def writeUInt32BE_def u32be_def magic_header_def magic_footer_def
      example_response_crc)

lemma example_responses_dropped:
  "readFrame [0x00, 0x00, 0x55, 0xaa, 0, 0, 0, 10, 0, 0, 0, 1, 0, 0, 0, 0x18,
      0xcb, 0x70, 0xdd, 0xc2, 0x5a, 0x2a, 0x20, 0x45, 0xb4, 0xc1, 0x30, 0x84, 0x41, 0x8a, 0x9a, 0xbb,
      0x74, 0xa4, 0x6d, 0x3b, 0x00, 0x00, 0xaa, 0x55] = Inr None"
  "readFrame [0x00, 0x00, 0x55, 0xaa, 0, 0, 0, 10, 0, 0, 0, 2, 0, 0, 0, 0x18,
      0xcb, 0x70, 0xdd, 0xc2, 0x5a, 0x2a, 0x20, 0x45, 0xb4, 0xc1, 0x30, 0x84, 0x41, 0x8a, 0x9a, 0xbb,
      0x0f, 0xba, 0xef, 0xd8, 0x00, 0x00, 0xaa, 0x55] = Inr None"
  by (simp_all add: readFrame_def readUInt32BE_def magic_header_def)

theorem responses_lost_on_arrival_witness:
  "registrations_wf example_device \<and> timers_wf example_device
   \<and> promises (snd (sendCommand (\<lambda>v. ''{}'') 10 [] example_device))
       ! fst (sendCommand (\<lambda>v. ''{}'') 10 [] example_device) = None
   \<and> promises (snd (sendCommand (\<lambda>v. ''{}'') 10 [] (snd (sendCommand (\<lambda>v. ''{}'') 10 [] example_device))))
       ! fst (sendCommand (\<lambda>v. ''{}'') 10 [] (snd (sendCommand (\<lambda>v. ''{}'') 10 [] example_device))) = None
   \<and> buildPacket 10 [0xcb, 0x70, 0xdd, 0xc2, 0x5a, 0x2a, 0x20, 0x45, 0xb4, 0xc1, 0x30, 0x84, 0x41, 0x8a, 0x9a, 0xbb] example_device
     = (Inr [0x00, 0x00, 0x55, 0xaa, 0, 0, 0, 10, 0, 0, 0, 1, 0, 0, 0, 0x18,
      0xcb, 0x70, 0xdd, 0xc2, 0x5a, 0x2a, 0x20, 0x45, 0xb4, 0xc1, 0x30, 0x84, 0x41, 0x8a, 0x9a, 0xbb,
      0x74, 0xa4, 0x6d, 0x3b, 0x00, 0x00, 0xaa, 0x55],
        example_device\<lparr>sequence := 1\<rparr>)
   \<and> buildPacket 10 [0xcb, 0x70, 0xdd, 0xc2, 0x5a, 0x2a, 0x20, 0x45, 0xb4, 0xc1, 0x30, 0x84, 0x41, 0x8a, 0x9a, 0xbb]
       (snd (sendCommand (\<lambda>v. ''{}'') 10 [] example_device))
     = (Inr [0x00, 0x00, 0x55, 0xaa, 0, 0, 0, 10, 0, 0, 0, 2, 0, 0, 0, 0x18,
      0xcb, 0x70, 0xdd, 0xc2, 0x5a, 0x2a, 0x20, 0x45, 0xb4, 0xc1, 0x30, 0x84, 0x41, 0x8a, 0x9a, 0xbb,
      0x0f, 0xba, 0xef, 0xd8, 0x00, 0x00, 0xaa, 0x55],
        (snd (sendCommand (\<lambda>v. ''{}'') 10 [] example_device))\<lparr>sequence := 2\<rparr>)
   \<and> length ([0xcb, 0x70, 0xdd, 0xc2, 0x5a, 0x2a, 0x20, 0x45, 0xb4, 0xc1, 0x30, 0x84, 0x41, 0x8a, 0x9a, 0xbb] :: buffer) + 8
       \<notin> {sequence example_device + 1, sequence example_device + 2}
   \<and> now example_device + 5000 \<le> 5000
   \<and> fst (sendCommand (\<lambda>v. ''{}'') 10 [] example_device) = 0
   \<and> fst (sendCommand (\<lambda>v. ''{}'') 10 [] (snd (sendCommand (\<lambda>v. ''{}'') 10 [] example_device))) = 1
   \<and> sequence example_device + 1 = 1
   \<and> readUInt32BE [0x00, 0x00, 0x55, 0xaa, 0, 0, 0, 10, 0, 0, 0, 1, 0, 0, 0, 0x18,
      0xcb, 0x70, 0xdd, 0xc2, 0x5a, 0x2a, 0x20, 0x45, 0xb4, 0xc1, 0x30, 0x84, 0x41, 0x8a, 0x9a, 0xbb,
      0x74, 0xa4, 0x6d, 0x3b, 0x00, 0x00, 0xaa, 0x55] 8 = Inr (sequence example_device + 1)
   \<and> readUInt32BE [0x00, 0x00, 0x55, 0xaa, 0, 0, 0, 10, 0, 0, 0, 2, 0, 0, 0, 0x18,
      0xcb, 0x70, 0xdd, 0xc2, 0x5a, 0x2a, 0x20, 0x45, 0xb4, 0xc1, 0x30, 0x84, 0x41, 0x8a, 0x9a, 0xbb,
      0x0f, 0xba, 0xef, 0xd8, 0x00, 0x00, 0xaa, 0x55] 8 = Inr (sequence example_device + 2)
   \<and> (\<exists>st3 st4.
         handleData (\<lambda>s. None) [0x00, 0x00, 0x55, 0xaa, 0, 0, 0, 10, 0, 0, 0, 2, 0, 0, 0, 0x18,
      0xcb, 0x70, 0xdd, 0xc2, 0x5a, 0x2a, 0x20, 0x45, 0xb4, 0xc1, 0x30, 0x84, 0x41, 0x8a, 0x9a, 0xbb,
      0x0f, 0xba, 0xef, 0xd8, 0x00, 0x00, 0xaa, 0x55]
           (snd (sendCommand (\<lambda>v. ''{}'') 10 [] (snd (sendCommand (\<lambda>v. ''{}'') 10 [] example_device)))) = Inr st3
         \<and> handleData (\<lambda>s. None) [0x00, 0x00, 0x55, 0xaa, 0, 0, 0, 10, 0, 0, 0, 1, 0, 0, 0, 0x18,
      0xcb, 0x70, 0xdd, 0xc2, 0x5a, 0x2a, 0x20, 0x45, 0xb4, 0xc1, 0x30, 0x84, 0x41, 0x8a, 0x9a, 0xbb,
      0x74, 0xa4, 0x6d, 0x3b, 0x00, 0x00, 0xaa, 0x55] st3 = Inr st4
         \<and> promises st4 ! fst (sendCommand (\<lambda>v. ''{}'') 10 [] example_device) = None
         \<and> promises st4 ! fst (sendCommand (\<lambda>v. ''{}'') 10 [] (snd (sendCommand (\<lambda>v. ''{}'') 10 [] example_device))) = None
         \<and> promises (advance 5000 st4) ! fst (sendCommand (\<lambda>v. ''{}'') 10 [] example_device)
             = Some (Rejected CommandTimeout)
         \<and> promises (advance 5000 st4) ! fst (sendCommand (\<lambda>v. ''{}'') 10 [] (snd (sendCommand (\<lambda>v. ''{}'') 10 [] example_device)))
             = Some (Rejected CommandTimeout))"
proof -
  let ?S = "\<lambda>v :: json. ''{}''"
  let ?st1 = "snd (sendCommand ?S 10 [] example_device)"
  let ?st2 = "snd (sendCommand ?S 10 [] ?st1)"
  let ?ct = "[0xcb, 0x70, 0xdd, 0xc2, 0x5a, 0x2a, 0x20, 0x45, 0xb4, 0xc1, 0x30, 0x84, 0x41, 0x8a, 0x9a, 0xbb] :: buffer"
  have e: "encryptCommand example_device (utf8 ''{}'') = Inr ?ct"
    by (simp add: encryptCommand_def version_def example_encrypt example_device_def on_connect_def
        TuyaDevice_def)
  have d: "connected example_device" "socket example_device" "sequence example_device = 0"
    "promises example_device = []" "now example_device = 0"
    by (simp_all add: example_device_def on_connect_def TuyaDevice_def)
  have w1: "registrations_wf example_device"
    by (simp add: registrations_wf_def example_device_def on_connect_def TuyaDevice_def)
  have w2: "timers_wf example_device"
    by (simp add: timers_wf_def example_device_def on_connect_def TuyaDevice_def)
  note s1 = sendCommand_sent [of example_device ?S "[]" _ 10, OF d(1,2) e]
  have c1: "fst (sendCommand ?S 10 [] example_device) = 0"
    and p1: "promises ?st1 = [None]" and q1: "sequence ?st1 = 1"
    and k1: "connected ?st1" "socket ?st1" "localKey ?st1 = localKey example_device"
    using s1 by (simp_all add: d)
  have e1: "encryptCommand ?st1 (utf8 ''{}'') = Inr ?ct"
    using e by (simp add: encryptCommand_def k1 version_def)
  note s2 = sendCommand_sent [of ?st1 ?S "[]" _ 10, OF k1(1,2) e1]
  have c2: "fst (sendCommand ?S 10 [] ?st1) = 1"
    and p2: "promises ?st2 = [None, None]"
    using s2 by (simp_all add: p1 q1)
  have h3: "sendCommand ?S 10 [] example_device = (fst (sendCommand ?S 10 [] example_device), ?st1)"
    by simp
  have h4: "promises ?st1 ! fst (sendCommand ?S 10 [] example_device) = None"
    by (simp add: p1 c1)
  have h5: "sendCommand ?S 10 [] ?st1 = (fst (sendCommand ?S 10 [] ?st1), ?st2)"
    by simp
  have h6: "promises ?st2 ! fst (sendCommand ?S 10 [] ?st1) = None"
    by (simp add: p2 c2)
  note h7 = example_responses(1) [OF d(3)]
  note h8 = example_responses(2) [OF q1]
  have h9: "length ?ct + 8 \<notin> {sequence example_device + 1, sequence example_device + 2}"
    by (simp add: d)
  have h11: "now example_device + 5000 \<le> 5000"
    by (simp add: d)
  have q0: "sequence example_device + 1 = 1"
    by (simp add: d)
  show ?thesis
    using w1 w2 h4 h6 h7 h8 h9 h11 c1 c2 q0
      responses_lost_on_arrival [OF w1 w2 h3 h4 h5 h6 h7 h8 h9 h9 h11, of "\<lambda>s. None"]
    by blast
qed

section \<open>The states a connection can be in\<close>

text \<open>The two invariants hold when the connection has just been made, and every chunk, every
  command and every passing of time keeps them: they hold in every state of every run.\<close>

lemma registrations_wf_iff:
  "registrations_wf st \<longleftrightarrow>
     (\<forall>n call timeout. (n, call, timeout) \<in> set (responders st) \<longrightarrow> call < length (promises st))
     \<and> (\<forall>timer due call e. (timer, due, RejectCall call e) \<in> set (timers st)
           \<longrightarrow> call < length (promises st))"
  unfolding registrations_wf_def by (rule arg_cong2 [where f = "(\<and>)"]) auto

lemma handleData_registrations_wf:
  assumes "registrations_wf st" and "handleData P data st = Inr st'"
  shows "registrations_wf st'"
proof -
  have "readFrame data = Inr None \<or> (\<exists>k l e. readFrame data = Inr (Some (k, l, e)))"
    using assms(2) by (auto simp: handleData_def split: sum.splits option.splits)
  then obtain l where l: "readUInt32BE data 12 = Inr l \<or> st' = st"
    using assms(2) readFrame_sequence by (fastforce simp: handleData_def)
  show ?thesis
  proof (cases "st' = st")
    case True
    then show ?thesis using assms(1) by simp
  next
    case False
    then have "readUInt32BE data 12 = Inr l"
      using l by simp
    from handleData_effect [OF this, of P st] assms(2)
    have len: "length (promises st') = length (promises st)"
      and resp: "set (responders st') \<subseteq> set (responders st)"
      and new: "\<forall>x \<in> set (timers st'). x \<in> set (timers st) \<or> snd (snd x) = EmitMotion False"
      by auto
    show ?thesis
      unfolding registrations_wf_iff using assms(1) len resp new
      by (fastforce simp: registrations_wf_iff)
  qed
qed

lemma sendCommand_registrations_wf:
  assumes "registrations_wf st"
  shows "registrations_wf (snd (sendCommand S c p st))"
proof -
  have "length (promises (snd (sendCommand S c p st))) = length (promises st) + 1"
    using sendCommand_cases [of S c p st]
    by (elim disjE exE conjE; simp add: new_promise_def)
  then show ?thesis
    using sendCommand_effect [of S c p st] assms
    unfolding registrations_wf_iff by (elim conjE disjE; simp) (fastforce simp: less_Suc_eq)+
qed

lemma advance_registrations_wf:
  assumes "registrations_wf st"
  shows "registrations_wf (advance t st)"
proof -
  have "set (timers (advance t st)) \<subseteq> set (timers st)"
    by (auto simp: advance_def Let_def fold_fire_timers)
  then show ?thesis
    using assms unfolding registrations_wf_iff by (simp add: advance_fields) blast
qed

lemma step_wf:
  assumes "timers_wf st \<and> registrations_wf st"
  shows "timers_wf (step P S i st) \<and> registrations_wf (step P S i st)"
proof (cases i)
  case (Chunk data)
  then show ?thesis
    using assms handleData_invariants(1) [of P data st] handleData_registrations_wf [of st P data]
    by (auto split: sum.splits)
next
  case (Command command payload)
  then show ?thesis
    using assms by (simp add: sendCommand_timers_wf sendCommand_registrations_wf)
next
  case (Elapse t)
  then show ?thesis
    using assms by (simp add: advance_timers_wf advance_registrations_wf)
qed

lemma run_wf:
  "timers_wf st \<and> registrations_wf st \<Longrightarrow>
     timers_wf (run P S inputs st) \<and> registrations_wf (run P S inputs st)"
  unfolding run_def
proof (induction inputs arbitrary: st)
  case Nil
  then show ?case by simp
next
  case (Cons i inputs)
  show ?case
    using Cons.IH [OF step_wf [OF Cons.prems]] by simp
qed

lemma reachable_wf:
  "timers_wf (run P S inputs (on_connect (TuyaDevice device_id local_key t)))
   \<and> registrations_wf (run P S inputs (on_connect (TuyaDevice device_id local_key t)))"
  by (rule run_wf) (simp add: timers_wf_def registrations_wf_def on_connect_def TuyaDevice_def)

end
